theory Spec2Isabelle
  imports Complex_Main
begin

section \<open>JavaScript values the draw handlers compute with\<close>

text \<open>
  The handlers only coerce and compare numbers; they never do arithmetic on the rate.
  A JavaScript number is a finite double, NaN or one of the infinities; comparing two
  finite doubles is exact, so a finite number is carried by the real it denotes.
\<close>

datatype jsnum = Fin real | NaN | PosInf | NegInf

text \<open>
  The \<open>winRate\<close> member of the JSON body. \<open>JOther n\<close> is a string, array or object
  whose \<open>Number(...)\<close> coercion is \<open>n\<close> (the coercion of those is the language's, not
  the repository's, and is taken as given).
\<close>

datatype jsval = JUndefined | JNull | JBool bool | JNumber jsnum | JOther jsnum

fun Number :: "jsval \<Rightarrow> jsnum" where
  "Number JUndefined = NaN"
| "Number JNull = Fin 0"
| "Number (JBool b) = Fin (if b then 1 else 0)"
| "Number (JNumber n) = n"
| "Number (JOther n) = n"

fun Number_isFinite :: "jsnum \<Rightarrow> bool" where
  "Number_isFinite (Fin x) = True"
| "Number_isFinite NaN = False"
| "Number_isFinite PosInf = False"
| "Number_isFinite NegInf = False"

text \<open>The operator \<open><\<close> on two numbers: false as soon as one side is NaN.\<close>

fun js_less :: "jsnum \<Rightarrow> jsnum \<Rightarrow> bool" where
  "js_less NaN y = False"
| "js_less x NaN = False"
| "js_less (Fin a) (Fin b) = (a < b)"
| "js_less (Fin a) PosInf = True"
| "js_less (Fin a) NegInf = False"
| "js_less PosInf y = False"
| "js_less NegInf (Fin b) = True"
| "js_less NegInf PosInf = True"
| "js_less NegInf NegInf = False"

text \<open>
  The \<open>deviceId\<close> member of the body: absent or falsy and not a string (\<open>undefined\<close>,
  \<open>null\<close>, \<open>0\<close>, \<open>false\<close>), a string (possibly empty), or a truthy value that is not a
  string, with the text the database driver sends for it.
\<close>

datatype jsdevice = DevFalsy | DevString string | DevTruthy string

section \<open>Configuration (server.js and src/unnamed/part_001, lines 9 to 13)\<close>

text \<open>
  \<open>env_DEFAULT_WIN_RATE\<close> is the environment variable: \<open>None\<close> when it is unset or
  empty (so that \<open>||\<close> picks 0.15), otherwise the number its text coerces to.
\<close>

record config =
  env_DEFAULT_WIN_RATE :: "jsnum option"

text \<open>
  The literal \<open>0.15\<close> is a double: the nearest one to the decimal, a little below it.
\<close>

definition double_0_15 :: real where
  "double_0_15 = 5404319552844595 / 2 ^ 55"

definition DEFAULT_WIN_RATE :: "config \<Rightarrow> jsnum" where
  "DEFAULT_WIN_RATE cfg =
     (case env_DEFAULT_WIN_RATE cfg of None \<Rightarrow> Fin double_0_15 | Some n \<Rightarrow> n)"

section \<open>The store of the token variants (the schema file, src/unnamed/part_000)\<close>

record prize_token =
  id_col :: nat
  claimed_by :: "string option"
  claimed_at :: "nat option"

record winner =
  device_id :: string
  created_at :: nat

record db =
  prize_tokens :: "prize_token list"
  winners :: "winner list"

text \<open>The seeding statement of the schema file: \<open>n\<close> free tokens with ids 1 to n.\<close>

definition seed :: "nat \<Rightarrow> db" where
  "seed n =
     \<lparr>prize_tokens = map (\<lambda>i. \<lparr>id_col = i, claimed_by = None, claimed_at = None\<rparr>) [1..<Suc n],
      winners = []\<rparr>"


text \<open>
  One connection of server.js' pool: the committed tables, which all connections share,
  and the transaction the connection has open, if any. An open transaction holds its
  own writes, not yet committed: the token rows it has updated (by position, with the
  row version it wrote; it keeps these rows locked) and the winner rows it has inserted.
  It also remembers when it began, which is what \<open>now()\<close> returns inside it. Outside a
  transaction (\<open>None\<close>) each statement commits by itself.

  A statement sees the committed tables with the writes of its own transaction on top
  (\<open>READ COMMITTED\<close>).
\<close>

record txn =
  started :: nat
  claims :: "(nat \<times> prize_token) list"
  regs :: "winner list"

record session =
  committed :: db
  pending :: "txn option"

definition overlay :: "txn \<Rightarrow> db \<Rightarrow> db" where
  "overlay x d =
     \<lparr>prize_tokens = fold (\<lambda>w ps. ps[fst w := snd w]) (claims x) (prize_tokens d),
      winners = winners d @ regs x\<rparr>"

definition current :: "session \<Rightarrow> db" where
  "current s = (case pending s of None \<Rightarrow> committed s | Some x \<Rightarrow> overlay x (committed s))"

definition write_token :: "nat \<Rightarrow> prize_token \<Rightarrow> session \<Rightarrow> session" where
  "write_token i p s =
     (case pending s of
        None \<Rightarrow> s\<lparr>committed := (committed s)\<lparr>prize_tokens := (prize_tokens (committed s))[i := p]\<rparr>\<rparr>
      | Some x \<Rightarrow> s\<lparr>pending := Some (x\<lparr>claims := claims x @ [(i, p)]\<rparr>)\<rparr>)"

definition write_winner :: "winner \<Rightarrow> session \<Rightarrow> session" where
  "write_winner r s =
     (case pending s of
        None \<Rightarrow> s\<lparr>committed := (committed s)\<lparr>winners := winners (committed s) @ [r]\<rparr>\<rparr>
      | Some x \<Rightarrow> s\<lparr>pending := Some (x\<lparr>regs := regs x @ [r]\<rparr>)\<rparr>)"

text \<open>
  \<open>BEGIN\<close> at time \<open>t\<close> opens a transaction; inside one it changes nothing (the
  database only warns). \<open>COMMIT\<close> publishes the writes, \<open>ROLLBACK\<close> drops them; both
  close the transaction and change nothing when none is open.
\<close>

definition BEGIN :: "nat \<Rightarrow> session \<Rightarrow> session" where
  "BEGIN t s =
     (case pending s of
        None \<Rightarrow> s\<lparr>pending := Some \<lparr>started = t, claims = [], regs = []\<rparr>\<rparr>
      | Some x \<Rightarrow> s)"

definition COMMIT :: "session \<Rightarrow> session" where
  "COMMIT s = \<lparr>committed = current s, pending = None\<rparr>"

definition ROLLBACK :: "session \<Rightarrow> session" where
  "ROLLBACK s = s\<lparr>pending := None\<rparr>"

text \<open>\<open>now()\<close> of a statement run at time \<open>t\<close>: the start of its transaction.\<close>

definition sql_now :: "session \<Rightarrow> nat \<Rightarrow> nat" where
  "sql_now s t = (case pending s of None \<Rightarrow> t | Some x \<Rightarrow> started x)"

text \<open>
  A new connection has no open transaction. \<open>client.release()\<close> puts the connection
  back into the pool as it is: a transaction still open then (only after a \<open>ROLLBACK\<close>
  that itself failed) stays open on it, and the next request that is handed this
  connection runs inside that transaction.
\<close>

definition connect :: "db \<Rightarrow> session" where
  "connect d = \<lparr>committed = d, pending = None\<rparr>"

definition release :: "session \<Rightarrow> session" where
  "release s = s"

subsection \<open>Helpers (server.js, lines 52 to 89)\<close>

definition free :: "prize_token \<Rightarrow> bool" where
  "free t = (claimed_by t = None)"

definition remaining_of :: "db \<Rightarrow> nat" where
  "remaining_of d = length (filter free (prize_tokens d))"

definition getRemainingPrizes :: "session \<Rightarrow> nat" where
  "getRemainingPrizes s = remaining_of (current s)"

definition won_rows :: "db \<Rightarrow> string \<Rightarrow> winner list" where
  "won_rows d dev = take 1 (filter (\<lambda>w. device_id w = dev) (winners d))"

definition hasWonBefore :: "session \<Rightarrow> string \<Rightarrow> bool" where
  "hasWonBefore s dev = (length (won_rows (current s) dev) > 0)"

text \<open>
  The claiming statement selects one row that is free and not locked by another open
  transaction (\<open>FOR UPDATE SKIP LOCKED\<close>), and updates that row (\<open>id\<close> is the primary
  key, so the row with the selected id is the selected row itself); the result lists
  the updated rows. Rows are told apart by their position in the table; \<open>L\<close> holds the
  positions that other open transactions keep locked. \<open>LIMIT 1\<close> without an order
  leaves the choice among the qualifying rows to the database: \<open>n\<close> says which one its
  scan takes, the last when there are fewer.
\<close>

definition candidates :: "nat set \<Rightarrow> prize_token list \<Rightarrow> nat list" where
  "candidates L ps = filter (\<lambda>i. free (ps ! i) \<and> i \<notin> L) [0..<length ps]"

definition chosen :: "nat \<Rightarrow> nat list \<Rightarrow> nat option" where
  "chosen n cs = (if cs = [] then None else Some (cs ! min n (length cs - 1)))"

definition tryClaimPrize :: "session \<Rightarrow> string \<Rightarrow> nat set \<Rightarrow> nat \<Rightarrow> nat \<Rightarrow> bool \<times> session" where
  "tryClaimPrize s dev L t n =
     (let rows = (case chosen n (candidates L (prize_tokens (current s))) of
                    None \<Rightarrow> []
                  | Some i \<Rightarrow> [i])
      in (length rows = 1,
          fold (\<lambda>i. write_token i
                 ((prize_tokens (current s) ! i)
                    \<lparr>claimed_by := Some dev, claimed_at := Some (sql_now s t)\<rparr>)) rows s))"

text \<open>What the claiming statement makes of the tables it sees.\<close>

definition claim_skip_locked :: "nat set \<Rightarrow> string \<Rightarrow> nat \<Rightarrow> nat \<Rightarrow> db \<Rightarrow> db" where
  "claim_skip_locked L dev t n d =
     (case chosen n (candidates L (prize_tokens d)) of
        None \<Rightarrow> d
      | Some i \<Rightarrow>
          d\<lparr>prize_tokens :=
              (prize_tokens d)[i := (prize_tokens d ! i)\<lparr>claimed_by := Some dev, claimed_at := Some t\<rparr>]\<rparr>)"

text \<open>
  The claiming statement of the MySQL variant, \<open>UPDATE ... WHERE claimed_by IS NULL
  LIMIT 1\<close> (src/unnamed/part_001, lines 74 to 80): no row is skipped.
\<close>

definition claim_one :: "string \<Rightarrow> nat \<Rightarrow> nat \<Rightarrow> prize_token list \<Rightarrow> prize_token list \<times> nat list" where
  "claim_one dev t n ps =
     (case chosen n (candidates {} ps) of
        None \<Rightarrow> (ps, [])
      | Some i \<Rightarrow>
          (ps[i := (ps ! i)\<lparr>claimed_by := Some dev, claimed_at := Some t\<rparr>], [id_col (ps ! i)]))"

definition claim_update :: "string \<Rightarrow> nat \<Rightarrow> nat \<Rightarrow> db \<Rightarrow> db" where
  "claim_update dev t n d = d\<lparr>prize_tokens := fst (claim_one dev t n (prize_tokens d))\<rparr>"

text \<open>
  \<open>INSERT INTO winners ... ON CONFLICT (device_id) DO NOTHING\<close> (lines 142 to 145), on
  tables and as a statement of a connection; \<open>created_at\<close> defaults to \<open>now()\<close>.
\<close>

definition insert_winner :: "string \<Rightarrow> nat \<Rightarrow> db \<Rightarrow> db" where
  "insert_winner dev t d =
     (if filter (\<lambda>w. device_id w = dev) (winners d) = []
      then d\<lparr>winners := winners d @ [\<lparr>device_id = dev, created_at = t\<rparr>]\<rparr>
      else d)"

definition register_winner :: "string \<Rightarrow> nat \<Rightarrow> session \<Rightarrow> session" where
  "register_winner dev t s =
     (if filter (\<lambda>w. device_id w = dev) (winners (current s)) = []
      then write_winner \<lparr>device_id = dev, created_at = sql_now s t\<rparr> s
      else s)"

section \<open>The draw of server.js (lines 110 to 157)\<close>

text \<open>
  Every awaited statement can throw; a statement that throws has changed nothing.
  \<open>faults\<close> names the statements that throw in this request, by their place in the
  handler. Besides the body, a request is given what its run reads from outside: the
  value of \<open>Math.random()\<close>, the database's clock \<open>now\<close>, its choice \<open>scan\<close> of the row
  for \<open>LIMIT 1\<close>, the token rows \<open>locked\<close> by other open transactions when the claim
  runs, and whether the pool's idle connection had \<open>expired\<close> (\<open>idleTimeoutMillis\<close>)
  when the request asked for one.
\<close>

datatype op =
  Q_hasWon | Q_remaining | Q_begin | Q_claim | Q_rollback_empty | Q_insert | Q_commit
  | Q_rollback_catch

record request =
  deviceId :: jsdevice
  winRate :: jsval
  math_random :: real
  now :: nat
  scan :: nat
  locked :: "nat set"
  expired :: bool
  faults :: "op set"

datatype reason = already_winner | no_prizes_left

text \<open>
  What the caller gets: the 400 answer, the 500 answer, the answer
  \<open>{ok:true, won, reason?, remaining}\<close>, or nothing (the exception left the handler).
\<close>

datatype response =
  Bad_request
  | Internal_error
  | Result bool "reason option" int
  | No_response

definition rate_of :: "config \<Rightarrow> jsval \<Rightarrow> jsnum" where
  "rate_of cfg v =
     (if Number_isFinite (Number v) then Number v else DEFAULT_WIN_RATE cfg)"

text \<open>
  \<open>pool.connect()\<close>, with requests served one after the other: the pool holds one
  connection, the one the previous request released, and hands it out as it is; when
  that connection has expired the pool has closed it (the database then rolls its open
  transaction back) and hands out a new one. It is taken to succeed: it stands before
  the \<open>try\<close> block and before any statement.
\<close>

definition pool_connect :: "request \<Rightarrow> session \<Rightarrow> session" where
  "pool_connect req s = (if expired req then connect (committed s) else s)"

text \<open>The \<open>try\<close> block: \<open>None\<close> when a statement threw, with the connection as it was then.\<close>

definition draw_try :: "jsnum \<Rightarrow> request \<Rightarrow> string \<Rightarrow> session \<Rightarrow> response option \<times> session" where
  "draw_try rate req dev s =
     (if Q_hasWon \<in> faults req then (None, s)
      else if hasWonBefore s dev then
        (if Q_remaining \<in> faults req then (None, s)
         else (Some (Result False (Some already_winner) (int (getRemainingPrizes s))), s))
      else if \<not> js_less (Fin (math_random req)) rate then
        (if Q_remaining \<in> faults req then (None, s)
         else (Some (Result False None (int (getRemainingPrizes s))), s))
      else if Q_begin \<in> faults req then (None, s)
      else if Q_claim \<in> faults req then (None, BEGIN (now req) s)
      else
        (let s2 = snd (tryClaimPrize (BEGIN (now req) s) dev (locked req) (now req) (scan req)) in
         if \<not> fst (tryClaimPrize (BEGIN (now req) s) dev (locked req) (now req) (scan req)) then
           (if Q_rollback_empty \<in> faults req then (None, s2)
            else (Some (Result False (Some no_prizes_left) 0), ROLLBACK s2))
         else if Q_insert \<in> faults req then (None, s2)
         else if Q_commit \<in> faults req then (None, register_winner dev (now req) s2)
         else
           (let s4 = COMMIT (register_winner dev (now req) s2) in
            if Q_remaining \<in> faults req then (None, s4)
            else (Some (Result True None (int (getRemainingPrizes s4))), s4))))"

text \<open>
  The handler, given the pool's connection and returning it as released. The \<open>catch\<close>
  block issues \<open>ROLLBACK\<close> and then answers; when that \<open>ROLLBACK\<close> throws, nothing is
  answered and the transaction stays open on the released connection.
\<close>

definition draw :: "config \<Rightarrow> session \<Rightarrow> request \<Rightarrow> response \<times> session" where
  "draw cfg s req =
     (case deviceId req of
        DevFalsy \<Rightarrow> (Bad_request, s)
      | DevTruthy x \<Rightarrow> (Bad_request, s)
      | DevString dev \<Rightarrow>
          (if dev = [] then (Bad_request, s)
           else
             (case draw_try (rate_of cfg (winRate req)) req dev (pool_connect req s) of
                (Some r, s') \<Rightarrow> (r, release s')
              | (None, s') \<Rightarrow>
                  (if Q_rollback_catch \<in> faults req then (No_response, release s')
                   else (Internal_error, release (ROLLBACK s'))))))"

text \<open>
  Requests served one after the other: the answers in order, and the pool's connection
  at the end.
\<close>

fun serve :: "config \<Rightarrow> session \<Rightarrow> request list \<Rightarrow> response list \<times> session" where
  "serve cfg s [] = ([], s)"
| "serve cfg s (r # rs) =
     (fst (draw cfg s r) # fst (serve cfg (snd (draw cfg s r)) rs),
      snd (serve cfg (snd (draw cfg s r)) rs))"

fun is_won :: "response \<Rightarrow> bool" where
  "is_won (Result w r n) = w"
| "is_won Bad_request = False"
| "is_won Internal_error = False"
| "is_won No_response = False"

section \<open>The MySQL variant (src/unnamed/part_001, lines 54 to 159)\<close>

text \<open>
  The same tables, no transaction: every statement commits by itself, and the
  \<open>catch\<close> block only answers. The statements that can throw are \<open>Q_hasWon\<close>,
  \<open>Q_remaining\<close>, \<open>Q_claim\<close> and \<open>Q_insert\<close>. The registration is
  \<open>INSERT IGNORE INTO winners\<close> (lines 147 to 149), which is \<open>insert_winner\<close> again:
  a row for a device id that is already there is dropped without an error.
\<close>

definition getRemainingPrizes_mysql :: "db \<Rightarrow> nat" where
  "getRemainingPrizes_mysql d = remaining_of d"

definition hasWonBefore_mysql :: "db \<Rightarrow> string \<Rightarrow> bool" where
  "hasWonBefore_mysql d dev = (length (won_rows d dev) > 0)"

text \<open>\<open>UPDATE ... WHERE claimed_by IS NULL LIMIT 1\<close>: true when one row was affected.\<close>

definition tryClaimPrize_mysql :: "db \<Rightarrow> string \<Rightarrow> nat \<Rightarrow> nat \<Rightarrow> bool \<times> db" where
  "tryClaimPrize_mysql d dev t n =
     (let affectedRows = length (snd (claim_one dev t n (prize_tokens d)))
      in (affectedRows = 1, claim_update dev t n d))"

definition draw_mysql_try :: "jsnum \<Rightarrow> request \<Rightarrow> string \<Rightarrow> db \<Rightarrow> response option \<times> db" where
  "draw_mysql_try rate req dev d =
     (if Q_hasWon \<in> faults req then (None, d)
      else if hasWonBefore_mysql d dev then
        (if Q_remaining \<in> faults req then (None, d)
         else (Some (Result False (Some already_winner) (int (getRemainingPrizes_mysql d))), d))
      else if \<not> js_less (Fin (math_random req)) rate then
        (if Q_remaining \<in> faults req then (None, d)
         else (Some (Result False None (int (getRemainingPrizes_mysql d))), d))
      else if Q_claim \<in> faults req then (None, d)
      else
        (let d2 = snd (tryClaimPrize_mysql d dev (now req) (scan req)) in
         if \<not> fst (tryClaimPrize_mysql d dev (now req) (scan req)) then
           (Some (Result False (Some no_prizes_left) 0), d2)
         else if Q_insert \<in> faults req then (None, d2)
         else
           (let d3 = insert_winner dev (now req) d2 in
            if Q_remaining \<in> faults req then (None, d3)
            else (Some (Result True None (int (getRemainingPrizes_mysql d3))), d3))))"

definition draw_mysql :: "config \<Rightarrow> db \<Rightarrow> request \<Rightarrow> response \<times> db" where
  "draw_mysql cfg d req =
     (case deviceId req of
        DevFalsy \<Rightarrow> (Bad_request, d)
      | DevTruthy x \<Rightarrow> (Bad_request, d)
      | DevString dev \<Rightarrow>
          (if dev = [] then (Bad_request, d)
           else
             (case draw_mysql_try (rate_of cfg (winRate req)) req dev d of
                (Some r, d') \<Rightarrow> (r, d')
              | (None, d') \<Rightarrow> (Internal_error, d'))))"

fun serve_mysql :: "config \<Rightarrow> db \<Rightarrow> request list \<Rightarrow> response list \<times> db" where
  "serve_mysql cfg d [] = ([], d)"
| "serve_mysql cfg d (r # rs) =
     (fst (draw_mysql cfg d r) # fst (serve_mysql cfg (snd (draw_mysql cfg d r)) rs),
      snd (serve_mysql cfg (snd (draw_mysql cfg d r)) rs))"

section \<open>The variant that records every outcome (src/unnamed/part_002, lines 40 to 121)\<close>

text \<open>
  One table, \<open>winners(id, device_id UNIQUE, won, created_at)\<close>, and no tokens. The
  serial \<open>id\<close> plays no part in the handler and is left out of the rows. The cap is
  the constant \<open>MAX_PRIZES\<close>; the chance is the literal \<open>0.3\<close>, a double a little
  below the decimal. The body carries no rate.
\<close>

record outcome_row =
  row_device :: string
  row_won :: bool
  row_created :: nat

type_synonym db2 = "outcome_row list"

definition MAX_PRIZES :: int where
  "MAX_PRIZES = 10"

definition double_0_3 :: real where
  "double_0_3 = 5404319552844595 / 2 ^ 54"

definition countWinners :: "db2 \<Rightarrow> int" where
  "countWinners d = int (length (filter row_won d))"

definition prev_rows :: "db2 \<Rightarrow> string \<Rightarrow> outcome_row list" where
  "prev_rows d dev = filter (\<lambda>w. row_device w = dev) d"

text \<open>
  The plain \<open>INSERT\<close>: the unique constraint on \<open>device_id\<close> makes it throw
  (\<open>None\<close>) when the device already has a row.
\<close>

definition insert_outcome :: "string \<Rightarrow> bool \<Rightarrow> nat \<Rightarrow> db2 \<Rightarrow> db2 option" where
  "insert_outcome dev w t d =
     (if prev_rows d dev = []
      then Some (d @ [\<lparr>row_device = dev, row_won = w, row_created = t\<rparr>])
      else None)"

datatype op2 = P_prev | P_count_prior | P_count | P_insert_full | P_insert | P_count_after

record request2 =
  deviceId2 :: jsdevice
  math_random2 :: real
  now2 :: nat
  faults2 :: "op2 set"

text \<open>
  The answers of this variant: \<open>{ok:false, error:"Falta deviceId"}\<close>,
  \<open>{ok:false, error:"Error en servidor"}\<close>, or \<open>{ok:true, won, remaining, reason?}\<close>.
\<close>

datatype response2 =
  Missing_device
  | Server_error
  | Result2 bool "reason option" int

definition draw2_try :: "request2 \<Rightarrow> string \<Rightarrow> db2 \<Rightarrow> response2 option \<times> db2" where
  "draw2_try req dev d =
     (if P_prev \<in> faults2 req then (None, d)
      else
        (case prev_rows d dev of
           p # ps \<Rightarrow>
             (if P_count_prior \<in> faults2 req then (None, d)
              else (Some (Result2 (row_won p) (Some already_winner) (MAX_PRIZES - countWinners d)), d))
         | [] \<Rightarrow>
             (if P_count \<in> faults2 req then (None, d)
              else if countWinners d \<ge> MAX_PRIZES then
                (if P_insert_full \<in> faults2 req then (None, d)
                 else
                   (case insert_outcome dev False (now2 req) d of
                      None \<Rightarrow> (None, d)
                    | Some d' \<Rightarrow> (Some (Result2 False (Some no_prizes_left) 0), d')))
              else
                (let won = (math_random2 req < double_0_3) in
                 if P_insert \<in> faults2 req then (None, d)
                 else
                   (case insert_outcome dev won (now2 req) d of
                      None \<Rightarrow> (None, d)
                    | Some d' \<Rightarrow>
                        (if P_count_after \<in> faults2 req then (None, d')
                         else (Some (Result2 won None (MAX_PRIZES - countWinners d')), d')))))))"

fun device_key :: "jsdevice \<Rightarrow> string option" where
  "device_key DevFalsy = None"
| "device_key (DevString s) = (if s = [] then None else Some s)"
| "device_key (DevTruthy s) = Some s"

definition draw2 :: "db2 \<Rightarrow> request2 \<Rightarrow> response2 \<times> db2" where
  "draw2 d req =
     (case device_key (deviceId2 req) of
        None \<Rightarrow> (Missing_device, d)
      | Some dev \<Rightarrow>
          (case draw2_try req dev d of
             (Some r, d') \<Rightarrow> (r, d')
           | (None, d') \<Rightarrow> (Server_error, d')))"

fun serve2 :: "db2 \<Rightarrow> request2 list \<Rightarrow> response2 list \<times> db2" where
  "serve2 d [] = ([], d)"
| "serve2 d (r # rs) =
     (fst (draw2 d r) # fst (serve2 (snd (draw2 d r)) rs), snd (serve2 (snd (draw2 d r)) rs))"

fun is_won2 :: "response2 \<Rightarrow> bool" where
  "is_won2 (Result2 w r n) = w"
| "is_won2 Missing_device = False"
| "is_won2 Server_error = False"

section \<open>Concurrent requests in the variant that records every outcome\<close>

text \<open>
  The handler of src/unnamed/part_002 runs each of its statements on the pool, outside
  any transaction, so the statements of concurrent requests interleave at every
  \<open>await\<close>. A stage is where a request stands between two statements;
  \<open>Math.random()\<close> is drawn in the same turn as the count that precedes it. A turn
  runs the next statement of one request.
\<close>

datatype stage2 =
  At_prev
  | At_count_prior bool
  | At_count
  | At_insert_full
  | At_insert bool
  | At_count_after bool
  | Answered response2

fun step2 :: "request2 \<Rightarrow> string \<Rightarrow> stage2 \<Rightarrow> db2 \<Rightarrow> stage2 \<times> db2" where
  "step2 req dev At_prev d =
     (if P_prev \<in> faults2 req then (Answered Server_error, d)
      else
        (case prev_rows d dev of
           p # ps \<Rightarrow> (At_count_prior (row_won p), d)
         | [] \<Rightarrow> (At_count, d)))"
| "step2 req dev (At_count_prior w) d =
     (if P_count_prior \<in> faults2 req then (Answered Server_error, d)
      else (Answered (Result2 w (Some already_winner) (MAX_PRIZES - countWinners d)), d))"
| "step2 req dev At_count d =
     (if P_count \<in> faults2 req then (Answered Server_error, d)
      else if countWinners d \<ge> MAX_PRIZES then (At_insert_full, d)
      else (At_insert (math_random2 req < double_0_3), d))"
| "step2 req dev At_insert_full d =
     (if P_insert_full \<in> faults2 req then (Answered Server_error, d)
      else
        (case insert_outcome dev False (now2 req) d of
           None \<Rightarrow> (Answered Server_error, d)
         | Some d' \<Rightarrow> (Answered (Result2 False (Some no_prizes_left) 0), d')))"
| "step2 req dev (At_insert w) d =
     (if P_insert \<in> faults2 req then (Answered Server_error, d)
      else
        (case insert_outcome dev w (now2 req) d of
           None \<Rightarrow> (Answered Server_error, d)
         | Some d' \<Rightarrow> (At_count_after w, d')))"
| "step2 req dev (At_count_after w) d =
     (if P_count_after \<in> faults2 req then (Answered Server_error, d)
      else (Answered (Result2 w None (MAX_PRIZES - countWinners d)), d))"
| "step2 req dev (Answered r) d = (Answered r, d)"

definition begin2 :: "request2 \<Rightarrow> stage2" where
  "begin2 req = (case device_key (deviceId2 req) of None \<Rightarrow> Answered Missing_device | Some dev \<Rightarrow> At_prev)"

definition turn2 :: "nat \<Rightarrow> db2 \<times> (request2 \<times> stage2) list \<Rightarrow> db2 \<times> (request2 \<times> stage2) list" where
  "turn2 k c =
     (if k < length (snd c) then
        (case device_key (deviceId2 (fst (snd c ! k))) of
           None \<Rightarrow> c
         | Some dev \<Rightarrow>
             (snd (step2 (fst (snd c ! k)) dev (snd (snd c ! k)) (fst c)),
              (snd c)[k := (fst (snd c ! k),
                            fst (step2 (fst (snd c ! k)) dev (snd (snd c ! k)) (fst c)))]))
      else c)"

definition arrive2 :: "request2 list \<Rightarrow> (request2 \<times> stage2) list" where
  "arrive2 reqs = map (\<lambda>r. (r, begin2 r)) reqs"

section \<open>Concurrent claim attempts\<close>










section \<open>Concurrent requests in server.js\<close>

text \<open>
  The handler awaits each statement, so the statements of concurrent requests
  interleave, each one atomic. The pool has several connections; they share the
  committed tables and each has its own transaction. The pool hands a connection to
  one request at a time.
\<close>

record world =
  store :: db
  conns :: "txn option list"

definition client :: "world \<Rightarrow> nat \<Rightarrow> session" where
  "client w c = \<lparr>committed = store w, pending = conns w ! c\<rparr>"

definition put_client :: "nat \<Rightarrow> session \<Rightarrow> world \<Rightarrow> world" where
  "put_client c s w = \<lparr>store = committed s, conns = (conns w)[c := pending s]\<rparr>"

text \<open>
  The token rows an open transaction keeps locked and the identities it has inserted
  into winners; for a connection, those of the other connections. An insert into
  winners waits while another open transaction has inserted the same identity.
\<close>

definition locks_of :: "txn option \<Rightarrow> nat list" where
  "locks_of x = (case x of None \<Rightarrow> [] | Some y \<Rightarrow> map fst (claims y))"

definition registering :: "txn option \<Rightarrow> string list" where
  "registering x = (case x of None \<Rightarrow> [] | Some y \<Rightarrow> map device_id (regs y))"

definition locked_by_others :: "world \<Rightarrow> nat \<Rightarrow> nat set" where
  "locked_by_others w c = set (concat (map locks_of ((conns w)[c := None])))"

definition registering_others :: "world \<Rightarrow> nat \<Rightarrow> string set" where
  "registering_others w c = set (concat (map registering ((conns w)[c := None])))"

text \<open>
  A stage is where a request stands between two awaited operations: before
  \<open>pool.connect()\<close>, before one of the statements of the \<open>try\<close> block (the three calls
  of \<open>getRemainingPrizes\<close> differ only in the answer that follows them), before the
  \<open>ROLLBACK\<close> of the \<open>catch\<close> block, or done with its answer. \<open>Math.random()\<close> is drawn
  in the same turn as the prior-win read that precedes it.
\<close>

datatype stage =
  S_connect
  | S_hasWon
  | S_remaining bool "reason option"
  | S_begin
  | S_claim
  | S_rollback_empty
  | S_insert
  | S_commit
  | S_catch
  | Done response

text \<open>
  The next statement of a request on its connection; \<open>L\<close> are the rows locked by other
  connections and \<open>B\<close> the identities other open transactions have inserted.
\<close>

fun step_draw ::
  "jsnum \<Rightarrow> request \<Rightarrow> string \<Rightarrow> nat set \<Rightarrow> string set \<Rightarrow> stage \<Rightarrow> session \<Rightarrow> stage \<times> session"
where
  "step_draw rate req dev L B S_hasWon s =
     (if Q_hasWon \<in> faults req then (S_catch, s)
      else if hasWonBefore s dev then (S_remaining False (Some already_winner), s)
      else if \<not> js_less (Fin (math_random req)) rate then (S_remaining False None, s)
      else (S_begin, s))"
| "step_draw rate req dev L B (S_remaining w rs) s =
     (if Q_remaining \<in> faults req then (S_catch, s)
      else (Done (Result w rs (int (getRemainingPrizes s))), s))"
| "step_draw rate req dev L B S_begin s =
     (if Q_begin \<in> faults req then (S_catch, s) else (S_claim, BEGIN (now req) s))"
| "step_draw rate req dev L B S_claim s =
     (if Q_claim \<in> faults req then (S_catch, s)
      else if fst (tryClaimPrize s dev L (now req) (scan req))
      then (S_insert, snd (tryClaimPrize s dev L (now req) (scan req)))
      else (S_rollback_empty, snd (tryClaimPrize s dev L (now req) (scan req))))"
| "step_draw rate req dev L B S_rollback_empty s =
     (if Q_rollback_empty \<in> faults req then (S_catch, s)
      else (Done (Result False (Some no_prizes_left) 0), ROLLBACK s))"
| "step_draw rate req dev L B S_insert s =
     (if Q_insert \<in> faults req then (S_catch, s)
      else if dev \<in> B then (S_insert, s)
      else (S_commit, register_winner dev (now req) s))"
| "step_draw rate req dev L B S_commit s =
     (if Q_commit \<in> faults req then (S_catch, s) else (S_remaining True None, COMMIT s))"
| "step_draw rate req dev L B S_catch s =
     (if Q_rollback_catch \<in> faults req then (Done No_response, s)
      else (Done Internal_error, ROLLBACK s))"
| "step_draw rate req dev L B S_connect s = (S_connect, s)"
| "step_draw rate req dev L B (Done r) s = (Done r, s)"

fun valid_device :: "jsdevice \<Rightarrow> string option" where
  "valid_device DevFalsy = None"
| "valid_device (DevString s) = (if s = [] then None else Some s)"
| "valid_device (DevTruthy s) = None"

text \<open>
  A request in flight: the request, the connection the pool hands it and its stage. A
  request holds its connection from \<open>pool.connect()\<close> to \<open>client.release()\<close>, which
  runs in the turn that answers.
\<close>

record flight =
  asks :: request
  via :: nat
  phase :: stage

fun connected :: "stage \<Rightarrow> bool" where
  "connected S_connect = False"
| "connected (Done r) = False"
| "connected S_hasWon = True"
| "connected (S_remaining w rs) = True"
| "connected S_begin = True"
| "connected S_claim = True"
| "connected S_rollback_empty = True"
| "connected S_insert = True"
| "connected S_commit = True"
| "connected S_catch = True"

definition in_use :: "flight list \<Rightarrow> nat \<Rightarrow> bool" where
  "in_use fs c = list_ex (\<lambda>f. via f = c \<and> connected (phase f)) fs"

text \<open>
  A turn runs the next operation of one request. \<open>pool.connect()\<close> resolves when the
  connection is not in use, and otherwise keeps waiting; a statement runs on the
  request's connection, against the tables and the other connections as they are then.
\<close>

definition turn :: "config \<Rightarrow> nat \<Rightarrow> world \<times> flight list \<Rightarrow> world \<times> flight list" where
  "turn cfg k c =
     (if k < length (snd c) then
        (case valid_device (deviceId (asks (snd c ! k))) of
           None \<Rightarrow> c
         | Some dev \<Rightarrow>
             (if phase (snd c ! k) = S_connect then
                (if via (snd c ! k) < length (conns (fst c)) \<and> \<not> in_use (snd c) (via (snd c ! k))
                 then (fst c, (snd c)[k := (snd c ! k)\<lparr>phase := S_hasWon\<rparr>])
                 else c)
              else if connected (phase (snd c ! k)) then
                (put_client (via (snd c ! k))
                   (snd (step_draw (rate_of cfg (winRate (asks (snd c ! k)))) (asks (snd c ! k)) dev
                          (locked_by_others (fst c) (via (snd c ! k)))
                          (registering_others (fst c) (via (snd c ! k)))
                          (phase (snd c ! k)) (client (fst c) (via (snd c ! k)))))
                   (fst c),
                 (snd c)[k := (snd c ! k)\<lparr>phase :=
                    fst (step_draw (rate_of cfg (winRate (asks (snd c ! k)))) (asks (snd c ! k)) dev
                          (locked_by_others (fst c) (via (snd c ! k)))
                          (registering_others (fst c) (via (snd c ! k)))
                          (phase (snd c ! k)) (client (fst c) (via (snd c ! k))))\<rparr>])
              else c))
      else c)"

text \<open>
  What happens, in order: the turn of a request, or the pool closing a connection that
  is not in use (the database rolls its open transaction back).
\<close>

datatype event = Turn nat | Expire nat

fun play :: "config \<Rightarrow> event \<Rightarrow> world \<times> flight list \<Rightarrow> world \<times> flight list" where
  "play cfg (Turn k) c = turn cfg k c"
| "play cfg (Expire i) c =
     (if i < length (conns (fst c)) \<and> \<not> in_use (snd c) i
      then ((fst c)\<lparr>conns := (conns (fst c))[i := None]\<rparr>, snd c)
      else c)"

text \<open>
  Requests arrive with the connection the pool will hand each; one whose \<open>deviceId\<close>
  is refused is answered at once. The pool starts with \<open>m\<close> connections, none inside a
  transaction.
\<close>

definition arrive :: "(request \<times> nat) list \<Rightarrow> flight list" where
  "arrive rs =
     map (\<lambda>r. \<lparr>asks = fst r, via = snd r,
               phase = (case valid_device (deviceId (fst r)) of
                       None \<Rightarrow> Done Bad_request
                     | Some dev \<Rightarrow> S_connect)\<rparr>) rs"

definition pool_of :: "db \<Rightarrow> nat \<Rightarrow> world" where
  "pool_of d m = \<lparr>store = d, conns = replicate m None\<rparr>"

fun answered_won :: "stage \<Rightarrow> bool" where
  "answered_won (Done r) = is_won r"
| "answered_won S_connect = False"
| "answered_won S_hasWon = False"
| "answered_won (S_remaining w rs) = False"
| "answered_won S_begin = False"
| "answered_won S_claim = False"
| "answered_won S_rollback_empty = False"
| "answered_won S_insert = False"
| "answered_won S_commit = False"
| "answered_won S_catch = False"

section \<open>Concurrent requests in the MySQL variant\<close>

text \<open>
  The same without transactions: every statement is committed by itself, so the
  connection a request uses plays no part and \<open>pool.getConnection()\<close> is taken to
  resolve at once. The \<open>catch\<close> block awaits nothing: a statement that throws is
  answered in the same turn.
\<close>

datatype stage_mysql =
  M_hasWon
  | M_remaining bool "reason option"
  | M_claim
  | M_insert
  | M_done response

fun step_draw_mysql :: "jsnum \<Rightarrow> request \<Rightarrow> string \<Rightarrow> stage_mysql \<Rightarrow> db \<Rightarrow> stage_mysql \<times> db" where
  "step_draw_mysql rate req dev M_hasWon d =
     (if Q_hasWon \<in> faults req then (M_done Internal_error, d)
      else if hasWonBefore_mysql d dev then (M_remaining False (Some already_winner), d)
      else if \<not> js_less (Fin (math_random req)) rate then (M_remaining False None, d)
      else (M_claim, d))"
| "step_draw_mysql rate req dev (M_remaining w rs) d =
     (if Q_remaining \<in> faults req then (M_done Internal_error, d)
      else (M_done (Result w rs (int (getRemainingPrizes_mysql d))), d))"
| "step_draw_mysql rate req dev M_claim d =
     (if Q_claim \<in> faults req then (M_done Internal_error, d)
      else if fst (tryClaimPrize_mysql d dev (now req) (scan req))
      then (M_insert, snd (tryClaimPrize_mysql d dev (now req) (scan req)))
      else (M_done (Result False (Some no_prizes_left) 0),
            snd (tryClaimPrize_mysql d dev (now req) (scan req))))"
| "step_draw_mysql rate req dev M_insert d =
     (if Q_insert \<in> faults req then (M_done Internal_error, d)
      else (M_remaining True None, insert_winner dev (now req) d))"
| "step_draw_mysql rate req dev (M_done r) d = (M_done r, d)"

definition turn_mysql ::
  "config \<Rightarrow> nat \<Rightarrow> db \<times> (request \<times> stage_mysql) list \<Rightarrow> db \<times> (request \<times> stage_mysql) list"
where
  "turn_mysql cfg k c =
     (if k < length (snd c) then
        (case valid_device (deviceId (fst (snd c ! k))) of
           None \<Rightarrow> c
         | Some dev \<Rightarrow>
             (snd (step_draw_mysql (rate_of cfg (winRate (fst (snd c ! k)))) (fst (snd c ! k)) dev
                     (snd (snd c ! k)) (fst c)),
              (snd c)[k := (fst (snd c ! k),
                 fst (step_draw_mysql (rate_of cfg (winRate (fst (snd c ! k)))) (fst (snd c ! k)) dev
                        (snd (snd c ! k)) (fst c)))]))
      else c)"

definition arrive_mysql :: "request list \<Rightarrow> (request \<times> stage_mysql) list" where
  "arrive_mysql rs =
     map (\<lambda>r. (r, case valid_device (deviceId r) of
                    None \<Rightarrow> M_done Bad_request
                  | Some dev \<Rightarrow> M_hasWon)) rs"

fun answered_won_mysql :: "stage_mysql \<Rightarrow> bool" where
  "answered_won_mysql (M_done r) = is_won r"
| "answered_won_mysql M_hasWon = False"
| "answered_won_mysql (M_remaining w rs) = False"
| "answered_won_mysql M_claim = False"
| "answered_won_mysql M_insert = False"

section \<open>Predicates used to state invariants\<close>

text \<open>
  From one state of the token table to a later one: the same rows with the same ids,
  and every row that was claimed is unchanged.
\<close>

definition frozen :: "prize_token list \<Rightarrow> prize_token list \<Rightarrow> bool" where
  "frozen ps qs =
     (length qs = length ps \<and> map id_col qs = map id_col ps
      \<and> (\<forall>i<length ps. \<not> free (ps ! i) \<longrightarrow> qs ! i = ps ! i))"






section \<open>Concrete stores and requests\<close>

definition cfg_unset :: config where
  "cfg_unset = \<lparr>env_DEFAULT_WIN_RATE = None\<rparr>"

definition ask :: "string \<Rightarrow> jsval \<Rightarrow> real \<Rightarrow> nat \<Rightarrow> request" where
  "ask dev rate r t =
     \<lparr>deviceId = DevString dev, winRate = rate, math_random = r, now = t, scan = 0, locked = {}, expired = False,
      faults = {}\<rparr>"

definition db_taken :: db where
  "db_taken =
     \<lparr>prize_tokens = [\<lparr>id_col = 1, claimed_by = Some ''d1'', claimed_at = Some 5\<rparr>],
      winners = [\<lparr>device_id = ''d1'', created_at = 5\<rparr>]\<rparr>"

definition ask2 :: "string \<Rightarrow> real \<Rightarrow> nat \<Rightarrow> request2" where
  "ask2 dev r t = \<lparr>deviceId2 = DevString dev, math_random2 = r, now2 = t, faults2 = {}\<rparr>"

definition db2_d1_won :: db2 where
  "db2_d1_won = [\<lparr>row_device = ''d1'', row_won = True, row_created = 1\<rparr>]"

definition db_two :: db where
  "db_two =
     \<lparr>prize_tokens = [\<lparr>id_col = 1, claimed_by = Some ''d1'', claimed_at = Some 5\<rparr>,
                      \<lparr>id_col = 2, claimed_by = None, claimed_at = None\<rparr>],
      winners = [\<lparr>device_id = ''d1'', created_at = 5\<rparr>]\<rparr>"

definition ask_failing :: "string \<Rightarrow> jsval \<Rightarrow> real \<Rightarrow> nat \<Rightarrow> op set \<Rightarrow> request" where
  "ask_failing dev rate r t fs =
     \<lparr>deviceId = DevString dev, winRate = rate, math_random = r, now = t, scan = 0, locked = {}, expired = False,
      faults = fs\<rparr>"


definition nine_wins :: db2 where
  "nine_wins =
     [\<lparr>row_device = ''w1'', row_won = True, row_created = 1\<rparr>,
      \<lparr>row_device = ''w2'', row_won = True, row_created = 2\<rparr>,
      \<lparr>row_device = ''w3'', row_won = True, row_created = 3\<rparr>,
      \<lparr>row_device = ''w4'', row_won = True, row_created = 4\<rparr>,
      \<lparr>row_device = ''w5'', row_won = True, row_created = 5\<rparr>,
      \<lparr>row_device = ''w6'', row_won = True, row_created = 6\<rparr>,
      \<lparr>row_device = ''w7'', row_won = True, row_created = 7\<rparr>,
      \<lparr>row_device = ''w8'', row_won = True, row_created = 8\<rparr>,
      \<lparr>row_device = ''w9'', row_won = True, row_created = 9\<rparr>]"

definition ask_locked :: "string \<Rightarrow> jsval \<Rightarrow> real \<Rightarrow> nat \<Rightarrow> nat set \<Rightarrow> request" where
  "ask_locked dev rate r t L =
     \<lparr>deviceId = DevString dev, winRate = rate, math_random = r, now = t, scan = 0, locked = L,
      expired = False, faults = {}\<rparr>"

definition two_callers :: "(request \<times> nat) list" where
  "two_callers =
     [(ask_failing ''d2'' (JNumber (Fin 1)) 0 9 {Q_insert}, 0),
      (ask ''d3'' (JNumber (Fin 1)) 0 10, 1)]"

section \<open>The claiming statement\<close>

lemma candidates_empty: "(candidates {} ps = []) = (filter free ps = [])"
proof
  assume a: "candidates {} ps = []"
  have "\<not> free x" if "x \<in> set ps" for x
  proof -
    from that obtain i where "i < length ps" "ps ! i = x" by (auto simp: in_set_conv_nth)
    with a show ?thesis by (auto simp: candidates_def filter_empty_conv)
  qed
  then show "filter free ps = []" by (simp add: filter_empty_conv)
next
  assume "filter free ps = []"
  then have "\<not> free (ps ! i)" if "i < length ps" for i
    using that by (simp add: filter_empty_conv)
  then show "candidates {} ps = []" by (simp add: candidates_def filter_empty_conv)
qed

lemma chosen_mem:
  assumes "chosen n cs = Some i"
  shows "i \<in> set cs"
proof -
  from assms have ne: "cs \<noteq> []" and i: "i = cs ! min n (length cs - 1)"
    by (auto simp: chosen_def split: if_splits)
  from ne have "min n (length cs - 1) < length cs"
    by (cases cs) (auto simp: min_def)
  with i show ?thesis by simp
qed

lemma chosen_none: "(chosen n cs = None) = (cs = [])"
  by (simp add: chosen_def)

lemma candidates_mem: "i \<in> set (candidates L ps) \<Longrightarrow> i < length ps \<and> free (ps ! i) \<and> i \<notin> L"
  by (simp add: candidates_def)

lemma filter_update_claimed:
  assumes "i < length ps" and "free (ps ! i)" and "\<not> free q"
  shows "Suc (length (filter free (ps[i := q]))) = length (filter free ps)"
  using assms
proof (induction ps arbitrary: i)
  case Nil
  then show ?case by simp
next
  case (Cons p ps)
  then show ?case by (cases i) auto
qed

lemmas claim_eval = claim_one_def candidates_def chosen_def


lemma claim_one_rows:
  "length (snd (claim_one dev t n ps)) = (if filter free ps = [] then 0 else 1)"
proof (cases "chosen n (candidates {} ps)")
  case None
  then have "filter free ps = []" by (simp add: chosen_none candidates_empty)
  with None show ?thesis by (simp add: claim_one_def)
next
  case (Some i)
  then have "candidates {} ps \<noteq> []" by (auto simp: chosen_def split: if_splits)
  then have "filter free ps \<noteq> []" by (simp add: candidates_empty)
  with Some show ?thesis by (simp add: claim_one_def)
qed

lemma claim_one_none: "filter free ps = [] \<Longrightarrow> fst (claim_one dev t n ps) = ps"
  using candidates_empty[of ps] by (simp add: claim_one_def chosen_def)

lemma claim_one_some:
  assumes "filter free ps \<noteq> []"
  shows "\<exists>i. i < length ps \<and> free (ps ! i) \<and>
       fst (claim_one dev t n ps) = ps[i := (ps ! i)\<lparr>claimed_by := Some dev, claimed_at := Some t\<rparr>]"
proof -
  from assms have "candidates {} ps \<noteq> []" by (simp add: candidates_empty)
  then obtain i where i: "chosen n (candidates {} ps) = Some i"
    by (auto simp: chosen_def)
  from chosen_mem[OF i] candidates_mem have "i < length ps \<and> free (ps ! i)" by blast
  moreover from i have
    "fst (claim_one dev t n ps) = ps[i := (ps ! i)\<lparr>claimed_by := Some dev, claimed_at := Some t\<rparr>]"
    by (simp add: claim_one_def)
  ultimately show ?thesis by blast
qed

lemma claim_one_remaining:
  "length (filter free (fst (claim_one dev t n ps))) + length (snd (claim_one dev t n ps))
     = length (filter free ps)"
proof (cases "filter free ps = []")
  case True
  then show ?thesis by (simp add: claim_one_none claim_one_rows)
next
  case False
  from claim_one_some[OF False, of dev t n] obtain i where i: "i < length ps" "free (ps ! i)"
    "fst (claim_one dev t n ps) = ps[i := (ps ! i)\<lparr>claimed_by := Some dev, claimed_at := Some t\<rparr>]"
    by blast
  have "\<not> free ((ps ! i)\<lparr>claimed_by := Some dev, claimed_at := Some t\<rparr>)"
    by (simp add: free_def)
  from filter_update_claimed[OF i(1,2) this] i(3) False show ?thesis
    by (simp add: claim_one_rows)
qed


section \<open>The claiming statement that skips locked rows\<close>

lemma candidates_filter: "candidates L ps = filter (\<lambda>j. j \<notin> L) (candidates {} ps)"
  by (simp add: candidates_def conj_commute)

lemma candidates_none: "filter free ps = [] \<Longrightarrow> candidates L ps = []"
  using candidates_empty[of ps] candidates_filter[of L ps] by simp

lemma candidates_iff:
  "(candidates L ps \<noteq> []) = (\<exists>i<length ps. free (ps ! i) \<and> i \<notin> L)"
  by (auto simp: candidates_def filter_empty_conv)

lemma chosen_some:
  assumes "cs \<noteq> []"
  obtains i where "chosen n cs = Some i" and "i \<in> set cs"
proof -
  from assms have c: "chosen n cs = Some (cs ! min n (length cs - 1))"
    by (simp add: chosen_def)
  from chosen_mem[OF c] c show ?thesis by (rule that[rotated])
qed

lemma claim_skip_locked_none:
  "candidates L (prize_tokens d) = [] \<Longrightarrow> claim_skip_locked L dev t n d = d"
  by (simp add: claim_skip_locked_def chosen_def)

lemma claim_skip_locked_some:
  assumes "candidates L (prize_tokens d) \<noteq> []"
  shows "\<exists>i. i < length (prize_tokens d) \<and> free (prize_tokens d ! i) \<and> i \<notin> L
       \<and> claim_skip_locked L dev t n d =
           d\<lparr>prize_tokens := (prize_tokens d)
               [i := (prize_tokens d ! i)\<lparr>claimed_by := Some dev, claimed_at := Some t\<rparr>]\<rparr>"
proof -
  from assms obtain i where i: "chosen n (candidates L (prize_tokens d)) = Some i"
    and m: "i \<in> set (candidates L (prize_tokens d))"
    by (rule chosen_some)
  from candidates_mem[OF m] i show ?thesis
    by (auto simp: claim_skip_locked_def)
qed

lemma claim_skip_locked_unlocked: "claim_skip_locked {} dev t n d = claim_update dev t n d"
  by (simp add: claim_skip_locked_def claim_update_def claim_one_def split: option.splits)

lemma winners_claim_skip_locked: "winners (claim_skip_locked L dev t n d) = winners d"
  by (simp add: claim_skip_locked_def split: option.splits)

lemma remaining_claim_skip_locked:
  "remaining_of (claim_skip_locked L dev t n d)
     = remaining_of d - (if candidates L (prize_tokens d) = [] then 0 else 1)"
proof (cases "candidates L (prize_tokens d) = []")
  case True
  then show ?thesis by (simp add: claim_skip_locked_none)
next
  case False
  from claim_skip_locked_some[OF False, of dev t n] obtain i where
    i: "i < length (prize_tokens d)" "free (prize_tokens d ! i)"
    and eq: "claim_skip_locked L dev t n d =
           d\<lparr>prize_tokens := (prize_tokens d)
               [i := (prize_tokens d ! i)\<lparr>claimed_by := Some dev, claimed_at := Some t\<rparr>]\<rparr>"
    by blast
  have "\<not> free ((prize_tokens d ! i)\<lparr>claimed_by := Some dev, claimed_at := Some t\<rparr>)"
    by (simp add: free_def)
  from filter_update_claimed[OF i this] eq False show ?thesis
    by (simp add: remaining_of_def)
qed

section \<open>Statements on a connection\<close>

lemma current_connect: "current (connect d) = d"
  by (simp add: current_def connect_def)

lemma committed_connect: "committed (connect d) = d"
  by (simp add: connect_def)

lemma pending_connect: "pending (connect d) = None"
  by (simp add: connect_def)

lemma current_BEGIN: "current (BEGIN t s) = current s"
  by (simp add: current_def BEGIN_def overlay_def split: option.splits)


lemma pending_BEGIN: "pending (BEGIN t s) \<noteq> None"
  by (simp add: BEGIN_def split: option.splits)

lemma sql_now_BEGIN: "sql_now (BEGIN t s) t' = sql_now s t"
  by (simp add: sql_now_def BEGIN_def split: option.splits)

lemma ROLLBACK_BEGIN: "ROLLBACK (BEGIN t s) = ROLLBACK s"
  by (simp add: ROLLBACK_def BEGIN_def split: option.splits)

lemma current_write_token:
  "current (write_token i p s) = (current s)\<lparr>prize_tokens := (prize_tokens (current s))[i := p]\<rparr>"
  by (simp add: current_def write_token_def overlay_def split: option.splits)

lemma current_write_winner:
  "current (write_winner r s) = (current s)\<lparr>winners := winners (current s) @ [r]\<rparr>"
  by (simp add: current_def write_winner_def overlay_def split: option.splits)

lemma open_write_token:
  assumes "pending s \<noteq> None"
  shows "committed (write_token i p s) = committed s" and "pending (write_token i p s) \<noteq> None"
    and "ROLLBACK (write_token i p s) = ROLLBACK s"
    and "sql_now (write_token i p s) t = sql_now s t"
  using assms by (auto simp: write_token_def ROLLBACK_def sql_now_def)

lemma open_write_winner:
  assumes "pending s \<noteq> None"
  shows "committed (write_winner r s) = committed s" and "pending (write_winner r s) \<noteq> None"
    and "ROLLBACK (write_winner r s) = ROLLBACK s"
    and "sql_now (write_winner r s) t = sql_now s t"
  using assms by (auto simp: write_winner_def ROLLBACK_def sql_now_def)

lemma tryClaimPrize_fst:
  "fst (tryClaimPrize s dev L t n) = (candidates L (prize_tokens (current s)) \<noteq> [])"
  by (simp add: tryClaimPrize_def Let_def chosen_def)

lemma tryClaimPrize_unlocked:
  "fst (tryClaimPrize s dev {} t n) = (0 < getRemainingPrizes s)"
  by (simp add: tryClaimPrize_fst candidates_empty getRemainingPrizes_def remaining_of_def)

lemma tryClaimPrize_false_same:
  "\<not> fst (tryClaimPrize s dev L t n) \<Longrightarrow> snd (tryClaimPrize s dev L t n) = s"
  by (simp add: tryClaimPrize_def Let_def chosen_def split: if_splits)

lemma tryClaimPrize_current:
  "current (snd (tryClaimPrize s dev L t n))
     = claim_skip_locked L dev (sql_now s t) n (current s)"
  by (simp add: tryClaimPrize_def Let_def claim_skip_locked_def current_write_token
      split: option.splits)

lemma open_tryClaimPrize:
  assumes "pending s \<noteq> None"
  shows "committed (snd (tryClaimPrize s dev L t n)) = committed s"
    and "pending (snd (tryClaimPrize s dev L t n)) \<noteq> None"
    and "ROLLBACK (snd (tryClaimPrize s dev L t n)) = ROLLBACK s"
    and "sql_now (snd (tryClaimPrize s dev L t n)) t' = sql_now s t'"
  using assms
  by (auto simp: tryClaimPrize_def Let_def write_token_def ROLLBACK_def sql_now_def
      split: option.splits)

lemma current_register_winner:
  "current (register_winner dev t s) = insert_winner dev (sql_now s t) (current s)"
  by (simp add: register_winner_def insert_winner_def current_write_winner)

lemma open_register_winner:
  assumes "pending s \<noteq> None"
  shows "committed (register_winner dev t s) = committed s"
    and "pending (register_winner dev t s) \<noteq> None"
    and "ROLLBACK (register_winner dev t s) = ROLLBACK s"
  using assms
  by (auto simp: register_winner_def write_winner_def ROLLBACK_def split: option.splits)

lemma COMMIT_connect: "COMMIT s = connect (current s)"
  by (simp add: COMMIT_def connect_def)

lemma ROLLBACK_connect: "ROLLBACK s = connect (committed s)"
  by (simp add: ROLLBACK_def connect_def)

lemma ROLLBACK_idle: "pending s = None \<Longrightarrow> ROLLBACK s = s"
  by (simp add: ROLLBACK_def)

lemma ROLLBACK_new: "ROLLBACK (connect d) = connect d"
  by (simp add: ROLLBACK_def connect_def)

lemma pool_connect_idle: "pool_connect req (connect d) = connect d"
  by (simp add: pool_connect_def connect_def)

lemma pool_connect_cases: "pool_connect req s = s \<or> pool_connect req s = connect (committed s)"
  by (simp add: pool_connect_def)

lemma has_row_iff:
  "(filter (\<lambda>w. device_id w = dev) ws \<noteq> []) = (dev \<in> device_id ` set ws)"
  by (auto simp: filter_empty_conv)

lemma hasWonBefore_iff:
  "hasWonBefore s dev = (dev \<in> device_id ` set (winners (current s)))"
  by (simp add: hasWonBefore_def won_rows_def has_row_iff)

lemma hasWonBefore_mysql_iff:
  "hasWonBefore_mysql d dev = (dev \<in> device_id ` set (winners d))"
  by (simp add: hasWonBefore_mysql_def won_rows_def has_row_iff)

section \<open>The draws as decision tables\<close>

text \<open>
  The draw of server.js on the connection \<open>s0\<close> the pool hands out: \<open>s2\<close> is the
  connection after a successful claim, \<open>s3\<close> after the insert, and the committed tables
  after \<open>COMMIT\<close> are those the transaction saw.
\<close>

lemma draw_table:
  assumes "deviceId req = DevString dev" and "dev \<noteq> []"
  shows "draw cfg s req =
     (if Q_hasWon \<in> faults req
      then (if Q_rollback_catch \<in> faults req then (No_response, pool_connect req s)
            else (Internal_error, ROLLBACK (pool_connect req s)))
      else if dev \<in> device_id ` set (winners (current (pool_connect req s))) then
        (if Q_remaining \<in> faults req
         then (if Q_rollback_catch \<in> faults req then (No_response, pool_connect req s)
               else (Internal_error, ROLLBACK (pool_connect req s)))
         else (Result False (Some already_winner)
                 (int (remaining_of (current (pool_connect req s)))), pool_connect req s))
      else if \<not> js_less (Fin (math_random req)) (rate_of cfg (winRate req)) then
        (if Q_remaining \<in> faults req
         then (if Q_rollback_catch \<in> faults req then (No_response, pool_connect req s)
               else (Internal_error, ROLLBACK (pool_connect req s)))
         else (Result False None (int (remaining_of (current (pool_connect req s)))),
               pool_connect req s))
      else if Q_begin \<in> faults req
      then (if Q_rollback_catch \<in> faults req then (No_response, pool_connect req s)
            else (Internal_error, ROLLBACK (pool_connect req s)))
      else if Q_claim \<in> faults req
      then (if Q_rollback_catch \<in> faults req
            then (No_response, BEGIN (now req) (pool_connect req s))
            else (Internal_error, ROLLBACK (pool_connect req s)))
      else if candidates (locked req) (prize_tokens (current (pool_connect req s))) = [] then
        (if Q_rollback_empty \<in> faults req
         then (if Q_rollback_catch \<in> faults req
               then (No_response, BEGIN (now req) (pool_connect req s))
               else (Internal_error, ROLLBACK (pool_connect req s)))
         else (Result False (Some no_prizes_left) 0, ROLLBACK (pool_connect req s)))
      else if Q_insert \<in> faults req
      then (if Q_rollback_catch \<in> faults req
            then (No_response,
                  snd (tryClaimPrize (BEGIN (now req) (pool_connect req s)) dev (locked req)
                         (now req) (scan req)))
            else (Internal_error, ROLLBACK (pool_connect req s)))
      else if Q_commit \<in> faults req
      then (if Q_rollback_catch \<in> faults req
            then (No_response,
                  register_winner dev (now req)
                    (snd (tryClaimPrize (BEGIN (now req) (pool_connect req s)) dev (locked req)
                            (now req) (scan req))))
            else (Internal_error, ROLLBACK (pool_connect req s)))
      else if Q_remaining \<in> faults req
      then (if Q_rollback_catch \<in> faults req then No_response else Internal_error,
            connect (insert_winner dev (sql_now (pool_connect req s) (now req))
                       (claim_skip_locked (locked req) dev (sql_now (pool_connect req s) (now req))
                          (scan req) (current (pool_connect req s)))))
      else (Result True None
              (int (remaining_of (current (pool_connect req s)) - 1)),
            connect (insert_winner dev (sql_now (pool_connect req s) (now req))
                       (claim_skip_locked (locked req) dev (sql_now (pool_connect req s) (now req))
                          (scan req) (current (pool_connect req s))))))"
proof -
  have won: "hasWonBefore (pool_connect req s) dev
      = (dev \<in> device_id ` set (winners (current (pool_connect req s))))"
    by (rule hasWonBefore_iff)
  have cl: "fst (tryClaimPrize (BEGIN (now req) (pool_connect req s)) dev (locked req)
                   (now req) (scan req))
      = (candidates (locked req) (prize_tokens (current (pool_connect req s))) \<noteq> [])"
    by (simp add: tryClaimPrize_fst current_BEGIN)
  have same: "snd (tryClaimPrize (BEGIN (now req) (pool_connect req s)) dev (locked req)
                   (now req) (scan req)) = BEGIN (now req) (pool_connect req s)"
    if "candidates (locked req) (prize_tokens (current (pool_connect req s))) = []"
    using that cl by (simp add: tryClaimPrize_false_same)
  have op2: "pending (snd (tryClaimPrize (BEGIN (now req) (pool_connect req s)) dev (locked req)
                   (now req) (scan req))) \<noteq> None"
    by (simp add: open_tryClaimPrize pending_BEGIN)
  have rb2: "ROLLBACK (snd (tryClaimPrize (BEGIN (now req) (pool_connect req s)) dev (locked req)
                   (now req) (scan req))) = ROLLBACK (pool_connect req s)"
    by (simp add: open_tryClaimPrize pending_BEGIN ROLLBACK_BEGIN)
  have rb3: "ROLLBACK (register_winner dev (now req)
               (snd (tryClaimPrize (BEGIN (now req) (pool_connect req s)) dev (locked req)
                   (now req) (scan req)))) = ROLLBACK (pool_connect req s)"
    by (simp add: open_register_winner op2 rb2)
  have cur3: "current (register_winner dev (now req)
               (snd (tryClaimPrize (BEGIN (now req) (pool_connect req s)) dev (locked req)
                   (now req) (scan req))))
      = insert_winner dev (sql_now (pool_connect req s) (now req))
          (claim_skip_locked (locked req) dev (sql_now (pool_connect req s) (now req))
             (scan req) (current (pool_connect req s)))"
    by (simp add: current_register_winner tryClaimPrize_current current_BEGIN sql_now_BEGIN
        open_tryClaimPrize pending_BEGIN)
  have rem: "remaining_of (insert_winner dev t (claim_skip_locked (locked req) dev t' (scan req)
                (current (pool_connect req s))))
      = remaining_of (current (pool_connect req s)) - 1"
    if "candidates (locked req) (prize_tokens (current (pool_connect req s))) \<noteq> []" for t t'
    using that by (simp add: remaining_of_def insert_winner_def remaining_claim_skip_locked[unfolded remaining_of_def])
  have pos: "0 < remaining_of (current (pool_connect req s))"
    if "candidates (locked req) (prize_tokens (current (pool_connect req s))) \<noteq> []"
  proof -
    from that have "filter free (prize_tokens (current (pool_connect req s))) \<noteq> []"
      using candidates_none by blast
    then show ?thesis by (simp add: remaining_of_def)
  qed
  have "draw cfg s req =
      (case draw_try (rate_of cfg (winRate req)) req dev (pool_connect req s) of
         (Some r, s') \<Rightarrow> (r, s')
       | (None, s') \<Rightarrow>
           (if Q_rollback_catch \<in> faults req then (No_response, s')
            else (Internal_error, ROLLBACK s')))"
    using assms unfolding draw_def release_def by simp
  then show ?thesis
    unfolding draw_try_def won cl Let_def
    by (simp add: getRemainingPrizes_def ROLLBACK_BEGIN same rb2 rb3 COMMIT_connect cur3
        current_connect rem ROLLBACK_new)
qed

lemma claim_update_none: "remaining_of d = 0 \<Longrightarrow> claim_update dev t n d = d"
  by (simp add: claim_update_def remaining_of_def claim_one_none)


lemma tryClaimPrize_mysql_fst: "fst (tryClaimPrize_mysql d dev t n) = (0 < getRemainingPrizes_mysql d)"
  by (simp add: tryClaimPrize_mysql_def getRemainingPrizes_mysql_def remaining_of_def
      claim_one_rows Let_def)

lemma tryClaimPrize_mysql_false_same:
  assumes "\<not> fst (tryClaimPrize_mysql d dev t n)"
  shows "snd (tryClaimPrize_mysql d dev t n) = d"
proof -
  from assms have "filter free (prize_tokens d) = []"
    by (simp add: tryClaimPrize_mysql_fst getRemainingPrizes_mysql_def remaining_of_def)
  then show ?thesis
    by (simp add: tryClaimPrize_mysql_def Let_def claim_update_def claim_one_none)
qed

lemma draw_mysql_no_prizes_left:
  assumes "faults req = {}" "deviceId req = DevString dev" "dev \<noteq> []"
    and "\<not> hasWonBefore_mysql d dev"
    and "js_less (Fin (math_random req)) (rate_of cfg (winRate req))"
    and "\<not> fst (tryClaimPrize_mysql d dev (now req) (scan req))"
  shows "draw_mysql cfg d req = (Result False (Some no_prizes_left) 0, d)"
proof -
  have same: "snd (tryClaimPrize_mysql d dev (now req) (scan req)) = d"
    using assms(6) by (rule tryClaimPrize_mysql_false_same)
  have "draw_mysql_try (rate_of cfg (winRate req)) req dev d
      = (Some (Result False (Some no_prizes_left) 0), d)"
    using assms same by (simp add: draw_mysql_try_def Let_def)
  then show ?thesis
    using assms(2,3) by (simp add: draw_mysql_def)
qed

lemma draw_mysql_table:
  assumes "deviceId req = DevString dev" and "dev \<noteq> []"
  shows "draw_mysql cfg d req =
     (if Q_hasWon \<in> faults req then (Internal_error, d)
      else if dev \<in> device_id ` set (winners d) then
        (if Q_remaining \<in> faults req then (Internal_error, d)
         else (Result False (Some already_winner) (int (remaining_of d)), d))
      else if \<not> js_less (Fin (math_random req)) (rate_of cfg (winRate req)) then
        (if Q_remaining \<in> faults req then (Internal_error, d)
         else (Result False None (int (remaining_of d)), d))
      else if Q_claim \<in> faults req then (Internal_error, d)
      else if remaining_of d = 0 then (Result False (Some no_prizes_left) 0, d)
      else if Q_insert \<in> faults req then (Internal_error, claim_update dev (now req) (scan req) d)
      else if Q_remaining \<in> faults req
      then (Internal_error, insert_winner dev (now req) (claim_update dev (now req) (scan req) d))
      else (Result True None
              (int (remaining_of (insert_winner dev (now req) (claim_update dev (now req) (scan req) d)))),
            insert_winner dev (now req) (claim_update dev (now req) (scan req) d)))"
  using assms unfolding draw_mysql_def draw_mysql_try_def hasWonBefore_mysql_iff Let_def
  by (simp add: tryClaimPrize_mysql_def Let_def claim_one_rows getRemainingPrizes_mysql_def
      remaining_of_def claim_update_none)

lemma draw_invalid:
  "deviceId req = DevFalsy \<or> deviceId req = DevString [] \<or> (\<exists>x. deviceId req = DevTruthy x)
   \<Longrightarrow> draw cfg s req = (Bad_request, s)"
  by (auto simp: draw_def)

lemma draw_mysql_invalid:
  "deviceId req = DevFalsy \<or> deviceId req = DevString [] \<or> (\<exists>x. deviceId req = DevTruthy x)
   \<Longrightarrow> draw_mysql cfg d req = (Bad_request, d)"
  by (auto simp: draw_mysql_def)

lemma remaining_insert_winner: "remaining_of (insert_winner dev t d) = remaining_of d"
  by (simp add: insert_winner_def remaining_of_def)

lemma remaining_claim_update:
  "remaining_of (claim_update dev t n d) = remaining_of d - 1"
  using claim_one_remaining[of dev t n "prize_tokens d"]
  by (simp add: claim_update_def remaining_of_def claim_one_rows split: if_splits)

lemma remaining_le_tokens: "remaining_of d \<le> length (prize_tokens d)"
  by (simp add: remaining_of_def)

lemma device_cases:
  obtains "deviceId req = DevFalsy \<or> deviceId req = DevString [] \<or> (\<exists>x. deviceId req = DevTruthy x)"
  | dev where "deviceId req = DevString dev" and "dev \<noteq> []"
  by (cases "deviceId req") auto


lemma draw_mysql_budget:
  "(if is_won (fst (draw_mysql cfg d req)) then 1 else 0) + remaining_of (snd (draw_mysql cfg d req))
     \<le> remaining_of d"
proof (cases req rule: device_cases)
  case 1
  then show ?thesis using draw_mysql_invalid[of req cfg d] by simp
next
  case (2 dev)
  show ?thesis
    unfolding draw_mysql_table[OF 2]
    by (simp add: remaining_insert_winner remaining_claim_update)
qed


lemma serve_mysql_budget:
  "length (filter is_won (fst (serve_mysql cfg d reqs))) + remaining_of (snd (serve_mysql cfg d reqs))
     \<le> remaining_of d"
proof (induction reqs arbitrary: d)
  case Nil
  then show ?case by simp
next
  case (Cons r rs)
  from Cons.IH[of "snd (draw_mysql cfg d r)"] draw_mysql_budget[of cfg d r]
  show ?case by (simp split: if_splits)
qed

lemma seed_tokens: "length (prize_tokens (seed n)) = n" "remaining_of (seed n) = n"
  by (simp_all add: seed_def remaining_of_def free_def)

lemma draw2_table:
  assumes "device_key (deviceId2 req) = Some dev"
  shows "draw2 d req =
     (if P_prev \<in> faults2 req then (Server_error, d)
      else
        (case prev_rows d dev of
           p # ps \<Rightarrow>
             (if P_count_prior \<in> faults2 req then (Server_error, d)
              else (Result2 (row_won p) (Some already_winner) (MAX_PRIZES - countWinners d), d))
         | [] \<Rightarrow>
             (if P_count \<in> faults2 req then (Server_error, d)
              else if countWinners d \<ge> MAX_PRIZES then
                (if P_insert_full \<in> faults2 req then (Server_error, d)
                 else (Result2 False (Some no_prizes_left) 0,
                       d @ [\<lparr>row_device = dev, row_won = False, row_created = now2 req\<rparr>]))
              else if P_insert \<in> faults2 req then (Server_error, d)
              else if P_count_after \<in> faults2 req
              then (Server_error,
                    d @ [\<lparr>row_device = dev, row_won = (math_random2 req < double_0_3),
                          row_created = now2 req\<rparr>])
              else (Result2 (math_random2 req < double_0_3) None
                      (MAX_PRIZES - countWinners
                         (d @ [\<lparr>row_device = dev, row_won = (math_random2 req < double_0_3),
                                row_created = now2 req\<rparr>])),
                    d @ [\<lparr>row_device = dev, row_won = (math_random2 req < double_0_3),
                          row_created = now2 req\<rparr>]))))"
  using assms unfolding draw2_def draw2_try_def
  by (simp add: insert_outcome_def Let_def split: list.splits)

lemma draw2_missing: "device_key (deviceId2 req) = None \<Longrightarrow> draw2 d req = (Missing_device, d)"
  by (simp add: draw2_def)

lemma countWinners_append:
  "countWinners (d @ [r]) = countWinners d + (if row_won r then 1 else 0)"
  by (simp add: countWinners_def)

lemma draw2_cap: "countWinners (snd (draw2 d req)) \<le> max (countWinners d) MAX_PRIZES"
proof (cases "device_key (deviceId2 req)")
  case None
  then show ?thesis by (simp add: draw2_missing)
next
  case (Some dev)
  show ?thesis
    unfolding draw2_table[OF Some]
    by (simp add: countWinners_append split: list.splits)
qed

lemma serve2_cap: "countWinners (snd (serve2 d reqs)) \<le> max (countWinners d) MAX_PRIZES"
proof (induction reqs arbitrary: d)
  case Nil
  then show ?case by simp
next
  case (Cons r rs)
  from Cons.IH[of "snd (draw2 d r)"] draw2_cap[of d r]
  show ?case by simp
qed

lemma prev_rows_append:
  "prev_rows (d @ [r]) dev = prev_rows d dev @ (if row_device r = dev then [r] else [])"
  by (simp add: prev_rows_def)

lemma draw2_keeps_rows:
  assumes "prev_rows d dev \<noteq> []"
  shows "prev_rows (snd (draw2 d req)) dev = prev_rows d dev"
proof (cases "device_key (deviceId2 req)")
  case None
  then show ?thesis by (simp add: draw2_missing)
next
  case (Some dev')
  show ?thesis
    unfolding draw2_table[OF Some]
    using assms by (auto simp: prev_rows_append split: list.splits)
qed

lemma serve2_keeps_rows:
  assumes "prev_rows d dev \<noteq> []"
  shows "prev_rows (snd (serve2 d reqs)) dev = prev_rows d dev"
  using assms
proof (induction reqs arbitrary: d)
  case Nil
  then show ?case by simp
next
  case (Cons r rs)
  have "prev_rows (snd (draw2 d r)) dev = prev_rows d dev"
    using Cons.prems by (rule draw2_keeps_rows)
  with Cons.IH[of "snd (draw2 d r)"] Cons.prems show ?case by simp
qed

lemma serve2_replay:
  assumes "prev_rows d ''d1'' = p # ps" and "row_won p"
  shows "fst (serve2 d (replicate k (ask2 ''d1'' 0 1)))
     = replicate k (Result2 True (Some already_winner) (MAX_PRIZES - countWinners d))
    \<and> snd (serve2 d (replicate k (ask2 ''d1'' 0 1))) = d"
proof (induction k)
  case 0
  then show ?case by simp
next
  case (Suc k)
  have key: "device_key (deviceId2 (ask2 ''d1'' 0 1)) = Some ''d1''"
    by (simp add: ask2_def)
  have "draw2 d (ask2 ''d1'' 0 1)
      = (Result2 True (Some already_winner) (MAX_PRIZES - countWinners d), d)"
    unfolding draw2_table[OF key] using assms by (simp add: ask2_def)
  with Suc show ?case by simp
qed

section \<open>The registry insert\<close>

lemma insert_winner_twice: "insert_winner dev t' (insert_winner dev t d) = insert_winner dev t d"
  by (simp add: insert_winner_def)

lemma insert_winner_rows:
  assumes "distinct (map device_id ws)"
  shows "length (filter (\<lambda>w. device_id w = dev) ws) \<le> 1"
  using assms
proof (induction ws)
  case Nil
  then show ?case by simp
next
  case (Cons w ws)
  show ?case
  proof (cases "device_id w = dev")
    case True
    with Cons.prems have "dev \<notin> device_id ` set ws" by simp
    then have "filter (\<lambda>w. device_id w = dev) ws = []"
      by (auto simp: filter_empty_conv)
    with True show ?thesis by simp
  next
    case False
    with Cons show ?thesis by simp
  qed
qed

lemma insert_winner_one_row:
  assumes "distinct (map device_id (winners d))"
  shows "length (filter (\<lambda>w. device_id w = dev) (winners (insert_winner dev t d))) = 1"
proof (cases "filter (\<lambda>w. device_id w = dev) (winners d) = []")
  case True
  then show ?thesis by (simp add: insert_winner_def)
next
  case False
  then have "0 < length (filter (\<lambda>w. device_id w = dev) (winners d))" by simp
  with insert_winner_rows[OF assms, of dev] have
    "length (filter (\<lambda>w. device_id w = dev) (winners d)) = 1" by linarith
  with False show ?thesis
    by (simp add: insert_winner_def)
qed

lemma insert_winner_distinct:
  assumes "distinct (map device_id (winners d))"
  shows "distinct (map device_id (winners (insert_winner dev t d)))"
  using assms by (auto simp: insert_winner_def filter_empty_conv)


lemma register_winner_twice:
  "register_winner dev t' (register_winner dev t s) = register_winner dev t s"
proof -
  have "filter (\<lambda>w. device_id w = dev) (winners (current (register_winner dev t s))) \<noteq> []"
    by (simp add: current_register_winner insert_winner_def)
  then show ?thesis
    by (simp add: register_winner_def[of dev t' "register_winner dev t s"])
qed

section \<open>What a draw can do to the store\<close>










lemma draw_mysql_d2_on_db_two:
  "draw_mysql cfg_unset db_two (ask ''d2'' (JNumber (Fin 1)) (1 / 2) 9)
     = (Result True None 0,
        \<lparr>prize_tokens = [\<lparr>id_col = 1, claimed_by = Some ''d1'', claimed_at = Some 5\<rparr>,
                         \<lparr>id_col = 2, claimed_by = Some ''d2'', claimed_at = Some 9\<rparr>],
         winners = [\<lparr>device_id = ''d1'', created_at = 5\<rparr>,
                    \<lparr>device_id = ''d2'', created_at = 9\<rparr>]\<rparr>)"
proof -
  have dev: "deviceId (ask ''d2'' (JNumber (Fin 1)) (1 / 2) 9) = DevString ''d2''" "''d2'' \<noteq> []"
    by (simp_all add: ask_def)
  show ?thesis
    unfolding draw_mysql_table[OF dev]
    by (simp add: ask_def db_two_def rate_of_def remaining_of_def free_def insert_winner_def
        claim_update_def claim_eval)
qed

lemma winners_claim_update: "winners (claim_update dev t n d) = winners d"
  by (simp add: claim_update_def)



lemma frozen_remaining:
  assumes "frozen ps qs"
  shows "length (filter free qs) \<le> length (filter free ps)"
proof -
  have "{i. i < length qs \<and> free (qs ! i)} \<subseteq> {i. i < length ps \<and> free (ps ! i)}"
    using assms by (auto simp: frozen_def)
  then have "card {i. i < length qs \<and> free (qs ! i)} \<le> card {i. i < length ps \<and> free (ps ! i)}"
    by (simp add: card_mono)
  then show ?thesis by (simp add: length_filter_conv_card)
qed

section \<open>What a draw of server.js can do to the connection\<close>












section \<open>Two requests of server.js and one free token\<close>

text \<open>
  On the store with one free token, \<open>d2\<close> connects, reads, begins and claims; while it
  holds the token, \<open>d3\<close> runs to its answer; then the insert of \<open>d2\<close> throws and its
  \<open>catch\<close> block rolls back.
\<close>

lemma locked_token_run:
  "map phase (snd (fold (play cfg_unset)
         [Turn 0, Turn 0, Turn 0, Turn 0, Turn 1, Turn 1, Turn 1, Turn 1, Turn 1]
         (pool_of db_two 2, arrive two_callers)))
       = [S_insert, Done (Result False (Some no_prizes_left) 0)]
   \<and> fold (play cfg_unset)
         [Turn 0, Turn 0, Turn 0, Turn 0, Turn 1, Turn 1, Turn 1, Turn 1, Turn 1, Turn 0, Turn 0]
         (pool_of db_two 2, arrive two_callers)
       = (pool_of db_two 2,
          [\<lparr>asks = fst (two_callers ! 0), via = 0, phase = Done Internal_error\<rparr>,
           \<lparr>asks = fst (two_callers ! 1), via = 1,
            phase = Done (Result False (Some no_prizes_left) 0)\<rparr>])"
  by code_simp

text \<open>
  On a store seeded with two tokens, served one after the other: the insert of \<open>d1\<close>
  throws and so does the \<open>ROLLBACK\<close> of its \<open>catch\<close> block, so the connection goes back
  to the pool inside the transaction that claimed the first token. The request of \<open>d2\<close>
  runs inside that transaction and its \<open>COMMIT\<close> publishes both claims: the first token
  is claimed by \<open>d1\<close>, who has no winner row and was answered nothing.
\<close>

lemma leaked_transaction_run:
  "serve cfg_unset (connect (seed 2))
     [ask_failing ''d1'' (JNumber (Fin 1)) 0 9 {Q_insert, Q_rollback_catch},
      ask ''d2'' (JNumber (Fin 1)) 0 10]
     = ([No_response, Result True None 0],
        connect
          \<lparr>prize_tokens = [\<lparr>id_col = 1, claimed_by = Some ''d1'', claimed_at = Some 9\<rparr>,
                           \<lparr>id_col = 2, claimed_by = Some ''d2'', claimed_at = Some 9\<rparr>],
           winners = [\<lparr>device_id = ''d2'', created_at = 9\<rparr>]\<rparr>)"
  by code_simp

section \<open>The rate of a request\<close>

lemma rate_of_absent: "rate_of cfg JUndefined = DEFAULT_WIN_RATE cfg"
  by (simp add: rate_of_def)

lemma rate_of_default: "rate_of cfg (JNumber (DEFAULT_WIN_RATE cfg)) = DEFAULT_WIN_RATE cfg"
  by (simp add: rate_of_def)


lemma rate_of_not_finite:
  "\<not> Number_isFinite (Number v) \<Longrightarrow> rate_of cfg v = DEFAULT_WIN_RATE cfg"
  by (simp add: rate_of_def)

lemma rate_of_finite: "Number_isFinite (Number v) \<Longrightarrow> rate_of cfg v = Number v"
  by (simp add: rate_of_def)

lemma draw_same_rate:
  assumes "rate_of cfg v = rate_of cfg v'"
  shows "draw cfg s (req\<lparr>winRate := v\<rparr>) = draw cfg s (req\<lparr>winRate := v'\<rparr>)"
proof (cases req rule: device_cases)
  case 1
  then have "deviceId (req\<lparr>winRate := x\<rparr>) = DevFalsy \<or> deviceId (req\<lparr>winRate := x\<rparr>) = DevString []
      \<or> (\<exists>y. deviceId (req\<lparr>winRate := x\<rparr>) = DevTruthy y)" for x
    by simp
  from draw_invalid[OF this] show ?thesis by simp
next
  case (2 dev)
  then have dev: "deviceId (req\<lparr>winRate := x\<rparr>) = DevString dev" for x by simp
  have p: "pool_connect (req\<lparr>winRate := x\<rparr>) s = pool_connect req s" for x
    by (simp add: pool_connect_def)
  show ?thesis
    unfolding draw_table[OF dev 2(2)] p
    using assms by simp
qed

lemma draw_mysql_same_rate:
  assumes "rate_of cfg v = rate_of cfg v'"
  shows "draw_mysql cfg d (req\<lparr>winRate := v\<rparr>) = draw_mysql cfg d (req\<lparr>winRate := v'\<rparr>)"
proof (cases req rule: device_cases)
  case 1
  then have "deviceId (req\<lparr>winRate := x\<rparr>) = DevFalsy \<or> deviceId (req\<lparr>winRate := x\<rparr>) = DevString []
      \<or> (\<exists>y. deviceId (req\<lparr>winRate := x\<rparr>) = DevTruthy y)" for x
    by simp
  from draw_mysql_invalid[OF this] show ?thesis by simp
next
  case (2 dev)
  then have dev: "deviceId (req\<lparr>winRate := x\<rparr>) = DevString dev" for x by simp
  show ?thesis
    unfolding draw_mysql_table[OF dev 2(2)]
    using assms by simp
qed

section \<open>First and later requests in the variant that records every outcome\<close>

lemma draw2_first_completed:
  assumes "device_key (deviceId2 req) = Some dev" and "prev_rows d dev = []"
    and "draw2 d req = (Result2 w rs n, d')"
  shows "d' = d @ [\<lparr>row_device = dev, row_won = w, row_created = now2 req\<rparr>]"
  using assms(2,3) unfolding draw2_table[OF assms(1)]
  by (auto split: if_splits)

lemma draw2_repeat:
  assumes "device_key (deviceId2 req) = Some dev" and "prev_rows D dev = p # ps"
  shows "snd (draw2 D req) = D"
    and "is_won2 (fst (draw2 D req)) \<longrightarrow> row_won p"
    and "draw2 D (req\<lparr>math_random2 := r\<rparr>) = draw2 D req"
    and "P_prev \<notin> faults2 req \<and> P_count_prior \<notin> faults2 req \<longrightarrow>
         draw2 D req = (Result2 (row_won p) (Some already_winner) (MAX_PRIZES - countWinners D), D)"
proof -
  have key': "device_key (deviceId2 (req\<lparr>math_random2 := r\<rparr>)) = Some dev"
    using assms(1) by simp
  show "snd (draw2 D req) = D"
    unfolding draw2_table[OF assms(1)] using assms(2) by simp
  show "is_won2 (fst (draw2 D req)) \<longrightarrow> row_won p"
    unfolding draw2_table[OF assms(1)] using assms(2) by simp
  show "draw2 D (req\<lparr>math_random2 := r\<rparr>) = draw2 D req"
    unfolding draw2_table[OF assms(1)] draw2_table[OF key'] using assms(2) by simp
  show "P_prev \<notin> faults2 req \<and> P_count_prior \<notin> faults2 req \<longrightarrow>
         draw2 D req = (Result2 (row_won p) (Some already_winner) (MAX_PRIZES - countWinners D), D)"
    unfolding draw2_table[OF assms(1)] using assms(2) by simp
qed

section \<open>The race for one free token\<close>
































section \<open>Interleaved requests in the variant that records every outcome\<close>

text \<open>One request alone, its four turns in a row, is the handler.\<close>

lemma step2_alone:
  assumes "device_key (deviceId2 req) = Some dev"
  shows "fold turn2 [0, 0, 0, 0] (d, arrive2 [req])
     = (snd (draw2 d req), [(req, Answered (fst (draw2 d req)))])"
proof -
  have b: "begin2 req = At_prev" using assms by (simp add: begin2_def)
  show ?thesis
    unfolding draw2_table[OF assms]
    using assms
    by (simp add: turn2_def arrive2_def b insert_outcome_def countWinners_append
        split: list.splits)
qed

text \<open>
  Two requests of new identities that interleave when nine wins are stored both pass
  the count, both win and both insert: eleven wins against a cap of ten.
\<close>

lemma count_then_insert_race:
  "countWinners nine_wins < MAX_PRIZES
   \<and> map snd (snd (fold turn2 [0, 1, 0, 1, 0, 1, 0, 1]
         (nine_wins, arrive2 [ask2 ''d10'' 0 10, ask2 ''d11'' 0 11])))
       = [Answered (Result2 True None (- 1)), Answered (Result2 True None (- 1))]
   \<and> countWinners (fst (fold turn2 [0, 1, 0, 1, 0, 1, 0, 1]
         (nine_wins, arrive2 [ask2 ''d10'' 0 10, ask2 ''d11'' 0 11]))) = 11
   \<and> \<not> countWinners (fst (fold turn2 [0, 1, 0, 1, 0, 1, 0, 1]
         (nine_wins, arrive2 [ask2 ''d10'' 0 10, ask2 ''d11'' 0 11]))) \<le> MAX_PRIZES"
  by (simp add: turn2_def arrive2_def begin2_def ask2_def nine_wins_def prev_rows_def
      countWinners_def MAX_PRIZES_def double_0_3_def insert_outcome_def)

text \<open>
  Two interleaved first requests of one identity both pass the prior-win read; the
  second insert throws and that request is answered with the error.
\<close>

lemma same_identity_race:
  "map snd (snd (fold turn2 [0, 1, 0, 1, 0, 1, 0]
         ([], arrive2 [ask2 ''d1'' 0 1, ask2 ''d1'' 0 2])))
       = [Answered (Result2 True None 9), Answered Server_error]
   \<and> fst (fold turn2 [0, 1, 0, 1, 0, 1, 0] ([], arrive2 [ask2 ''d1'' 0 1, ask2 ''d1'' 0 2]))
       = [\<lparr>row_device = ''d1'', row_won = True, row_created = 1\<rparr>]"
  by (simp add: turn2_def arrive2_def begin2_def ask2_def prev_rows_def
      countWinners_def MAX_PRIZES_def double_0_3_def insert_outcome_def)


section \<open>The outcome of a claim attempt\<close>

text \<open>
  In server.js a free token that another open transaction keeps locked is skipped:
  with the one free token of the store locked, \<open>tryClaimPrize\<close> answers false and the
  draw answers \<open>{won:false, reason:"no_prizes_left", remaining:0}\<close> although a token
  is free. So it is between two concurrent requests: the first holds the token when the
  second claims; the second is told that no prizes are left; then the insert of the
  first throws, its claim is rolled back, and the token is free as before.
\<close>

theorem claimOne_skips_locked_counterexample:
  "remaining_of db_two = 1
   \<and> getRemainingPrizes (BEGIN 9 (connect db_two)) = 1
   \<and> \<not> fst (tryClaimPrize (BEGIN 9 (connect db_two)) ''d3'' {1} 9 0)
   \<and> draw cfg_unset (connect db_two) (ask_locked ''d3'' (JNumber (Fin 1)) 0 9 {1})
       = (Result False (Some no_prizes_left) 0, connect db_two)
   \<and> map phase (snd (fold (play cfg_unset)
         [Turn 0, Turn 0, Turn 0, Turn 0, Turn 1, Turn 1, Turn 1, Turn 1, Turn 1]
         (pool_of db_two 2, arrive two_callers)))
       = [S_insert, Done (Result False (Some no_prizes_left) 0)]
   \<and> fold (play cfg_unset)
         [Turn 0, Turn 0, Turn 0, Turn 0, Turn 1, Turn 1, Turn 1, Turn 1, Turn 1, Turn 0, Turn 0]
         (pool_of db_two 2, arrive two_callers)
       = (pool_of db_two 2,
          [\<lparr>asks = fst (two_callers ! 0), via = 0, phase = Done Internal_error\<rparr>,
           \<lparr>asks = fst (two_callers ! 1), via = 1,
            phase = Done (Result False (Some no_prizes_left) 0)\<rparr>])"
proof -
  have dev: "deviceId (ask_locked ''d3'' (JNumber (Fin 1)) 0 9 {1}) = DevString ''d3''"
    "''d3'' \<noteq> []"
    by (simp_all add: ask_locked_def)
  have p: "pool_connect (ask_locked ''d3'' (JNumber (Fin 1)) 0 9 {1}) (connect db_two)
      = connect db_two"
    by (rule pool_connect_idle)
  have a: "remaining_of db_two = 1" "getRemainingPrizes (BEGIN 9 (connect db_two)) = 1"
    by (simp_all add: getRemainingPrizes_def current_BEGIN current_connect remaining_of_def
        db_two_def free_def)
  have b: "\<not> fst (tryClaimPrize (BEGIN 9 (connect db_two)) ''d3'' {1} 9 0)"
    by (simp add: tryClaimPrize_fst current_BEGIN current_connect candidates_def db_two_def
        free_def)
  have c: "draw cfg_unset (connect db_two) (ask_locked ''d3'' (JNumber (Fin 1)) 0 9 {1})
       = (Result False (Some no_prizes_left) 0, connect db_two)"
    unfolding draw_table[OF dev] p current_connect
    by (simp add: ask_locked_def db_two_def rate_of_def candidates_def free_def ROLLBACK_new)
  from a b c locked_token_run show ?thesis by simp
qed

text \<open>
  Claim C7, as amended. In server.js \<open>tryClaimPrize\<close> answers true exactly when some
  token is free and not locked by another open transaction (when none is locked:
  exactly when a token is free), and then it has turned exactly one such token into one
  claimed by the identity, every other row and the winners untouched; it answers false
  otherwise, and then it changes nothing and the draw answers \<open>{won:false,
  reason:"no_prizes_left", remaining:0}\<close>, provided the \<open>ROLLBACK\<close> that follows the
  empty claim does not throw; when it throws the draw answers the 500 answer, or
  nothing when the \<open>ROLLBACK\<close> of the \<open>catch\<close> block throws too. In the MySQL variant
  \<open>tryClaimPrize\<close> answers true exactly when a token is free, with the same effect, and
  in the false case the draw answers \<open>no_prizes_left\<close> with remaining 0. The request is
  one that reaches the claim.
\<close>

theorem claimOne_result_and_no_prizes_left:
  assumes "deviceId req = DevString dev" and "dev \<noteq> []"
    and "Q_hasWon \<notin> faults req" and "Q_begin \<notin> faults req" and "Q_claim \<notin> faults req"
    and "dev \<notin> device_id ` set (winners (current (pool_connect req s)))"
    and "dev \<notin> device_id ` set (winners d)"
    and "js_less (Fin (math_random req)) (rate_of cfg (winRate req))"
  shows
    "fst (tryClaimPrize c dev L t n)
       = (\<exists>i<length (prize_tokens (current c)). free (prize_tokens (current c) ! i) \<and> i \<notin> L)
     \<and> fst (tryClaimPrize c dev {} t n) = (0 < getRemainingPrizes c)
     \<and> (fst (tryClaimPrize c dev L t n) \<longrightarrow>
          (\<exists>i. i < length (prize_tokens (current c)) \<and> free (prize_tokens (current c) ! i)
             \<and> i \<notin> L
             \<and> current (snd (tryClaimPrize c dev L t n)) =
                 (current c)\<lparr>prize_tokens := (prize_tokens (current c))
                    [i := (prize_tokens (current c) ! i)
                            \<lparr>claimed_by := Some dev, claimed_at := Some (sql_now c t)\<rparr>]\<rparr>))
     \<and> (\<not> fst (tryClaimPrize c dev L t n) \<longrightarrow> snd (tryClaimPrize c dev L t n) = c)
     \<and> fst (tryClaimPrize_mysql d dev t n) = (0 < getRemainingPrizes_mysql d)
     \<and> (fst (tryClaimPrize_mysql d dev t n) \<longrightarrow>
          (\<exists>i. i < length (prize_tokens d) \<and> free (prize_tokens d ! i)
             \<and> snd (tryClaimPrize_mysql d dev t n) =
                 d\<lparr>prize_tokens := (prize_tokens d)
                    [i := (prize_tokens d ! i)\<lparr>claimed_by := Some dev, claimed_at := Some t\<rparr>]\<rparr>))
     \<and> (\<not> fst (tryClaimPrize_mysql d dev t n) \<longrightarrow> snd (tryClaimPrize_mysql d dev t n) = d)
     \<and> (\<not> fst (tryClaimPrize (BEGIN (now req) (pool_connect req s)) dev (locked req)
                  (now req) (scan req)) \<longrightarrow>
          (Q_rollback_empty \<notin> faults req \<longrightarrow>
             draw cfg s req = (Result False (Some no_prizes_left) 0, connect (committed s)))
          \<and> (Q_rollback_empty \<in> faults req \<and> Q_rollback_catch \<notin> faults req \<longrightarrow>
             draw cfg s req = (Internal_error, connect (committed s)))
          \<and> (Q_rollback_empty \<in> faults req \<and> Q_rollback_catch \<in> faults req \<longrightarrow>
             draw cfg s req = (No_response, BEGIN (now req) (pool_connect req s))))
     \<and> (\<not> fst (tryClaimPrize_mysql d dev (now req) (scan req)) \<longrightarrow>
          draw_mysql cfg d req = (Result False (Some no_prizes_left) 0, d))"
proof -
  have a: "fst (tryClaimPrize c dev L t n)
       = (\<exists>i<length (prize_tokens (current c)). free (prize_tokens (current c) ! i) \<and> i \<notin> L)"
    by (simp add: tryClaimPrize_fst candidates_iff)
  have a0: "fst (tryClaimPrize c dev {} t n) = (0 < getRemainingPrizes c)"
    by (rule tryClaimPrize_unlocked)
  have b: "\<exists>i. i < length (prize_tokens (current c)) \<and> free (prize_tokens (current c) ! i)
             \<and> i \<notin> L
             \<and> current (snd (tryClaimPrize c dev L t n)) =
                 (current c)\<lparr>prize_tokens := (prize_tokens (current c))
                    [i := (prize_tokens (current c) ! i)
                            \<lparr>claimed_by := Some dev, claimed_at := Some (sql_now c t)\<rparr>]\<rparr>"
    if "fst (tryClaimPrize c dev L t n)"
  proof -
    from that have "candidates L (prize_tokens (current c)) \<noteq> []"
      by (simp add: tryClaimPrize_fst)
    from claim_skip_locked_some[OF this, of dev "sql_now c t" n] show ?thesis
      by (simp add: tryClaimPrize_current)
  qed
  have e: "snd (tryClaimPrize c dev L t n) = c" if "\<not> fst (tryClaimPrize c dev L t n)"
    using that by (rule tryClaimPrize_false_same)
  have a': "fst (tryClaimPrize_mysql d dev t n) = (0 < getRemainingPrizes_mysql d)"
    by (rule tryClaimPrize_mysql_fst)
  have b': "\<exists>i. i < length (prize_tokens d) \<and> free (prize_tokens d ! i)
             \<and> snd (tryClaimPrize_mysql d dev t n) =
                 d\<lparr>prize_tokens := (prize_tokens d)
                    [i := (prize_tokens d ! i)\<lparr>claimed_by := Some dev, claimed_at := Some t\<rparr>]\<rparr>"
    if "fst (tryClaimPrize_mysql d dev t n)"
  proof -
    from that have "filter free (prize_tokens d) \<noteq> []"
      by (simp add: tryClaimPrize_mysql_fst getRemainingPrizes_mysql_def remaining_of_def)
    from claim_one_some[OF this, of dev t n] show ?thesis
      by (auto simp: tryClaimPrize_mysql_def Let_def claim_update_def)
  qed
  have e': "snd (tryClaimPrize_mysql d dev t n) = d" if "\<not> fst (tryClaimPrize_mysql d dev t n)"
    using that by (rule tryClaimPrize_mysql_false_same)
  have rb: "ROLLBACK (pool_connect req s) = connect (committed s)"
    by (simp add: ROLLBACK_connect pool_connect_def committed_connect)
  have f: "(Q_rollback_empty \<notin> faults req \<longrightarrow>
             draw cfg s req = (Result False (Some no_prizes_left) 0, connect (committed s)))
          \<and> (Q_rollback_empty \<in> faults req \<and> Q_rollback_catch \<notin> faults req \<longrightarrow>
             draw cfg s req = (Internal_error, connect (committed s)))
          \<and> (Q_rollback_empty \<in> faults req \<and> Q_rollback_catch \<in> faults req \<longrightarrow>
             draw cfg s req = (No_response, BEGIN (now req) (pool_connect req s)))"
    if "\<not> fst (tryClaimPrize (BEGIN (now req) (pool_connect req s)) dev (locked req)
                  (now req) (scan req))"
  proof -
    from that have none: "candidates (locked req) (prize_tokens (current (pool_connect req s))) = []"
      by (simp add: tryClaimPrize_fst current_BEGIN)
    show ?thesis
      unfolding draw_table[OF assms(1,2)] rb
      using assms(3,4,5,6,8) none by simp
  qed
  have f': "draw_mysql cfg d req = (Result False (Some no_prizes_left) 0, d)"
    if "\<not> fst (tryClaimPrize_mysql d dev (now req) (scan req))"
  proof -
    from that have "remaining_of d = 0"
      by (simp add: tryClaimPrize_mysql_fst getRemainingPrizes_mysql_def)
    then show ?thesis
      unfolding draw_mysql_table[OF assms(1,2)]
      using assms(3,5,7,8) by simp
  qed
  from a a0 b e a' b' e' f f' show ?thesis by blast
qed

text \<open>
  The hypotheses of C7 hold for \<open>d2\<close> asking with a rate of one: on a store seeded with
  one token the claim answers true; on the store whose token \<open>d1\<close> has, it answers
  false and both draws answer that no prizes are left.
\<close>

theorem claimOne_result_and_no_prizes_left_witness:
  "deviceId (ask ''d2'' (JNumber (Fin 1)) (1 / 2) 9) = DevString ''d2'' \<and> ''d2'' \<noteq> []
   \<and> Q_hasWon \<notin> faults (ask ''d2'' (JNumber (Fin 1)) (1 / 2) 9)
   \<and> Q_begin \<notin> faults (ask ''d2'' (JNumber (Fin 1)) (1 / 2) 9)
   \<and> Q_claim \<notin> faults (ask ''d2'' (JNumber (Fin 1)) (1 / 2) 9)
   \<and> ''d2'' \<notin> device_id ` set (winners (current
         (pool_connect (ask ''d2'' (JNumber (Fin 1)) (1 / 2) 9) (connect db_taken))))
   \<and> ''d2'' \<notin> device_id ` set (winners db_taken)
   \<and> js_less (Fin (math_random (ask ''d2'' (JNumber (Fin 1)) (1 / 2) 9)))
        (rate_of cfg_unset (winRate (ask ''d2'' (JNumber (Fin 1)) (1 / 2) 9)))
   \<and> fst (tryClaimPrize (connect (seed 1)) ''d2'' {} 9 0)
   \<and> \<not> fst (tryClaimPrize (BEGIN 9 (connect db_taken)) ''d2'' {} 9 0)
   \<and> Q_rollback_empty \<notin> faults (ask ''d2'' (JNumber (Fin 1)) (1 / 2) 9)
   \<and> \<not> fst (tryClaimPrize_mysql db_taken ''d2'' 9 0)
   \<and> draw cfg_unset (connect db_taken) (ask ''d2'' (JNumber (Fin 1)) (1 / 2) 9)
       = (Result False (Some no_prizes_left) 0, connect db_taken)
   \<and> draw_mysql cfg_unset db_taken (ask ''d2'' (JNumber (Fin 1)) (1 / 2) 9)
       = (Result False (Some no_prizes_left) 0, db_taken)"
proof -
  have h: "deviceId (ask ''d2'' (JNumber (Fin 1)) (1 / 2) 9) = DevString ''d2''" "''d2'' \<noteq> []"
    "Q_hasWon \<notin> faults (ask ''d2'' (JNumber (Fin 1)) (1 / 2) 9)"
    "Q_begin \<notin> faults (ask ''d2'' (JNumber (Fin 1)) (1 / 2) 9)"
    "Q_claim \<notin> faults (ask ''d2'' (JNumber (Fin 1)) (1 / 2) 9)"
    "''d2'' \<notin> device_id ` set (winners (current
         (pool_connect (ask ''d2'' (JNumber (Fin 1)) (1 / 2) 9) (connect db_taken))))"
    "''d2'' \<notin> device_id ` set (winners db_taken)"
    "js_less (Fin (math_random (ask ''d2'' (JNumber (Fin 1)) (1 / 2) 9)))
        (rate_of cfg_unset (winRate (ask ''d2'' (JNumber (Fin 1)) (1 / 2) 9)))"
    by (simp_all add: ask_def db_taken_def rate_of_def pool_connect_idle current_connect)
  have g: "0 < getRemainingPrizes (connect (seed 1))"
    by (simp add: getRemainingPrizes_def current_connect seed_tokens)
  have g': "\<not> fst (tryClaimPrize (BEGIN 9 (connect db_taken)) ''d2'' {} 9 0)"
    "\<not> fst (tryClaimPrize_mysql db_taken ''d2'' 9 0)"
    by (simp_all add: tryClaimPrize_unlocked tryClaimPrize_mysql_fst getRemainingPrizes_def
        getRemainingPrizes_mysql_def remaining_of_def current_BEGIN current_connect db_taken_def
        free_def)
  have n: "now (ask ''d2'' (JNumber (Fin 1)) (1 / 2) 9) = 9"
    "scan (ask ''d2'' (JNumber (Fin 1)) (1 / 2) 9) = 0"
    "locked (ask ''d2'' (JNumber (Fin 1)) (1 / 2) 9) = {}"
    "Q_rollback_empty \<notin> faults (ask ''d2'' (JNumber (Fin 1)) (1 / 2) 9)"
    "pool_connect (ask ''d2'' (JNumber (Fin 1)) (1 / 2) 9) (connect db_taken) = connect db_taken"
    "committed (connect db_taken) = db_taken"
    by (simp_all add: ask_def pool_connect_idle committed_connect)
  have "fst (tryClaimPrize (connect (seed 1)) ''d2'' {} 9 0)
     \<and> draw cfg_unset (connect db_taken) (ask ''d2'' (JNumber (Fin 1)) (1 / 2) 9)
         = (Result False (Some no_prizes_left) 0, connect db_taken)
     \<and> draw_mysql cfg_unset db_taken (ask ''d2'' (JNumber (Fin 1)) (1 / 2) 9)
         = (Result False (Some no_prizes_left) 0, db_taken)"
    using claimOne_result_and_no_prizes_left[OF h, where c = "connect (seed 1)" and t = 9
      and n = 0 and L = "{}"] g g' n
    by auto
  with h g' n(4) show ?thesis by simp
qed

section \<open>The prior-win check\<close>

text \<open>
  Claim C3, as amended. A request of an identity that already has a row in the winners
  table, whose two reads do not throw, is answered with reason \<open>already_winner\<close> and
  the current remaining count, leaves the store as it was (no claim, no registry write)
  and does not depend on the random value or the rate. In server.js and in the MySQL
  variant the answer has \<open>won:false\<close>; in the variant that records every outcome it
  repeats the stored \<open>won\<close>, and its remaining count is \<open>MAX_PRIZES\<close> less the stored
  wins. In server.js the tables are those the request's connection sees, and the
  connection goes back to the pool as the pool handed it out.
\<close>

theorem already_winner_short_circuit:
  assumes "deviceId req = DevString dev" and "dev \<noteq> []"
    and "dev \<in> device_id ` set (winners d)"
    and "Q_hasWon \<notin> faults req" and "Q_remaining \<notin> faults req"
    and "device_key (deviceId2 req2) = Some dev2" and "prev_rows d2 dev2 = p # ps"
    and "P_prev \<notin> faults2 req2" and "P_count_prior \<notin> faults2 req2"
  shows
    "(dev \<in> device_id ` set (winners (current (pool_connect req s))) \<longrightarrow>
        draw cfg s req
          = (Result False (Some already_winner)
               (int (remaining_of (current (pool_connect req s)))), pool_connect req s)
        \<and> draw cfg s (req\<lparr>math_random := r, winRate := v\<rparr>) = draw cfg s req)
     \<and> draw cfg (connect d) req
         = (Result False (Some already_winner) (int (remaining_of d)), connect d)
     \<and> draw cfg (connect d) (req\<lparr>math_random := r, winRate := v\<rparr>) = draw cfg (connect d) req
     \<and> draw_mysql cfg d req = (Result False (Some already_winner) (int (remaining_of d)), d)
     \<and> draw_mysql cfg d (req\<lparr>math_random := r, winRate := v\<rparr>) = draw_mysql cfg d req
     \<and> draw2 d2 req2
         = (Result2 (row_won p) (Some already_winner) (MAX_PRIZES - countWinners d2), d2)
     \<and> draw2 d2 (req2\<lparr>math_random2 := r\<rparr>) = draw2 d2 req2"
proof -
  have dev': "deviceId (req\<lparr>math_random := r, winRate := v\<rparr>) = DevString dev"
    using assms(1) by simp
  have key': "device_key (deviceId2 (req2\<lparr>math_random2 := r\<rparr>)) = Some dev2"
    using assms(6) by simp
  have pc: "pool_connect (req\<lparr>math_random := r, winRate := v\<rparr>) x = pool_connect req x" for x
    by (simp add: pool_connect_def)
  have a: "draw cfg s req
       = (Result False (Some already_winner) (int (remaining_of (current (pool_connect req s)))),
          pool_connect req s)"
    if "dev \<in> device_id ` set (winners (current (pool_connect req s)))"
    unfolding draw_table[OF assms(1,2)] using that assms(4,5) by simp
  have a': "draw cfg s (req\<lparr>math_random := r, winRate := v\<rparr>)
       = (Result False (Some already_winner) (int (remaining_of (current (pool_connect req s)))),
          pool_connect req s)"
    if "dev \<in> device_id ` set (winners (current (pool_connect req s)))"
    unfolding draw_table[OF dev' assms(2)] pc using that assms(4,5) by simp
  have n: "draw cfg (connect d) req
         = (Result False (Some already_winner) (int (remaining_of d)), connect d)"
    unfolding draw_table[OF assms(1,2)] pool_connect_idle current_connect
    using assms(3,4,5) by simp
  have n': "draw cfg (connect d) (req\<lparr>math_random := r, winRate := v\<rparr>)
         = (Result False (Some already_winner) (int (remaining_of d)), connect d)"
    unfolding draw_table[OF dev' assms(2)] pool_connect_idle current_connect
    using assms(3,4,5) by simp
  have b: "draw_mysql cfg d req = (Result False (Some already_winner) (int (remaining_of d)), d)"
    unfolding draw_mysql_table[OF assms(1,2)] using assms(3,4,5) by simp
  have b': "draw_mysql cfg d (req\<lparr>math_random := r, winRate := v\<rparr>)
      = (Result False (Some already_winner) (int (remaining_of d)), d)"
    unfolding draw_mysql_table[OF dev' assms(2)] using assms(3,4,5) by simp
  have c: "draw2 d2 req2
      = (Result2 (row_won p) (Some already_winner) (MAX_PRIZES - countWinners d2), d2)"
    unfolding draw2_table[OF assms(6)] using assms(7,8,9) by simp
  have c': "draw2 d2 (req2\<lparr>math_random2 := r\<rparr>)
      = (Result2 (row_won p) (Some already_winner) (MAX_PRIZES - countWinners d2), d2)"
    unfolding draw2_table[OF key'] using assms(7,8,9) by simp
  from a a' n n' b b' c c' show ?thesis by simp
qed

text \<open>The hypotheses of C3 hold for the stores where \<open>d1\<close> has won.\<close>

theorem already_winner_short_circuit_witness:
  "deviceId (ask ''d1'' JUndefined (1 / 100) 9) = DevString ''d1'' \<and> ''d1'' \<noteq> []
   \<and> ''d1'' \<in> device_id ` set (winners db_taken)
   \<and> ''d1'' \<in> device_id ` set (winners (current
         (pool_connect (ask ''d1'' JUndefined (1 / 100) 9) (connect db_taken))))
   \<and> Q_hasWon \<notin> faults (ask ''d1'' JUndefined (1 / 100) 9)
   \<and> Q_remaining \<notin> faults (ask ''d1'' JUndefined (1 / 100) 9)
   \<and> device_key (deviceId2 (ask2 ''d1'' 0 9)) = Some ''d1''
   \<and> prev_rows db2_d1_won ''d1'' = \<lparr>row_device = ''d1'', row_won = True, row_created = 1\<rparr> # []
   \<and> P_prev \<notin> faults2 (ask2 ''d1'' 0 9) \<and> P_count_prior \<notin> faults2 (ask2 ''d1'' 0 9)
   \<and> draw cfg_unset (connect db_taken) (ask ''d1'' JUndefined (1 / 100) 9)
       = (Result False (Some already_winner) 0, connect db_taken)
   \<and> draw_mysql cfg_unset db_taken (ask ''d1'' JUndefined (1 / 100) 9)
       = (Result False (Some already_winner) 0, db_taken)
   \<and> draw2 db2_d1_won (ask2 ''d1'' 0 9) = (Result2 True (Some already_winner) 9, db2_d1_won)"
proof -
  have h: "deviceId (ask ''d1'' JUndefined (1 / 100) 9) = DevString ''d1''" "''d1'' \<noteq> []"
    "''d1'' \<in> device_id ` set (winners db_taken)"
    "Q_hasWon \<notin> faults (ask ''d1'' JUndefined (1 / 100) 9)"
    "Q_remaining \<notin> faults (ask ''d1'' JUndefined (1 / 100) 9)"
    "device_key (deviceId2 (ask2 ''d1'' 0 9)) = Some ''d1''"
    "prev_rows db2_d1_won ''d1'' = \<lparr>row_device = ''d1'', row_won = True, row_created = 1\<rparr> # []"
    "P_prev \<notin> faults2 (ask2 ''d1'' 0 9)" "P_count_prior \<notin> faults2 (ask2 ''d1'' 0 9)"
    by (simp_all add: ask_def ask2_def db_taken_def db2_d1_won_def prev_rows_def)
  have g: "''d1'' \<in> device_id ` set (winners (current
         (pool_connect (ask ''d1'' JUndefined (1 / 100) 9) (connect db_taken))))"
    by (simp add: pool_connect_idle current_connect db_taken_def)
  have v: "remaining_of db_taken = 0" "MAX_PRIZES - countWinners db2_d1_won = 9"
    by (simp_all add: remaining_of_def db_taken_def free_def MAX_PRIZES_def countWinners_def
        db2_d1_won_def)
  from already_winner_short_circuit[OF h, where cfg = cfg_unset and r = 0 and v = JUndefined
      and s = "connect db_taken"] h g v
  show ?thesis by (simp add: pool_connect_idle current_connect)
qed

text \<open>
  In the variant that records every outcome a stored winner is answered
  \<open>won:true\<close>, not \<open>won:false\<close>.
\<close>

theorem already_winner_won_false_counterexample:
  "prev_rows db2_d1_won ''d1'' \<noteq> []
   \<and> fst (draw2 db2_d1_won (ask2 ''d1'' 0 9))
       \<noteq> Result2 False (Some already_winner) (MAX_PRIZES - countWinners db2_d1_won)
   \<and> is_won2 (fst (draw2 db2_d1_won (ask2 ''d1'' 0 9)))"
proof -
  have key: "device_key (deviceId2 (ask2 ''d1'' 0 9)) = Some ''d1''"
    by (simp add: ask2_def)
  show ?thesis
    unfolding draw2_table[OF key]
    by (simp add: ask2_def db2_d1_won_def prev_rows_def)
qed

section \<open>Losing the random gate\<close>




section \<open>Registering a win twice\<close>

text \<open>
  Claim C5, as amended. In server.js (\<open>ON CONFLICT DO NOTHING\<close>) and in the MySQL
  variant (\<open>INSERT IGNORE\<close>), registering the same identity twice, in either order of
  the two statements, leaves exactly one winner row for it in a table whose device ids
  are distinct: the second statement changes nothing and raises nothing, and the ids
  stay distinct; on a connection the statement acts on the tables the connection
  sees. In the variant that records every outcome the insert is a plain
  \<open>INSERT\<close> under a unique constraint: the first insert for an identity adds its one
  row, the second throws and adds none.
\<close>

theorem recordWin_idempotent:
  assumes "distinct (map device_id (winners d))" and "prev_rows d2 dev = []"
  shows
    "insert_winner dev t' (insert_winner dev t d) = insert_winner dev t d
     \<and> length (filter (\<lambda>w. device_id w = dev)
          (winners (insert_winner dev t' (insert_winner dev t d)))) = 1
     \<and> distinct (map device_id (winners (insert_winner dev t' (insert_winner dev t d))))
     \<and> register_winner dev t' (register_winner dev t s) = register_winner dev t s
     \<and> current (register_winner dev t s) = insert_winner dev (sql_now s t) (current s)
     \<and> insert_outcome dev w t d2
         = Some (d2 @ [\<lparr>row_device = dev, row_won = w, row_created = t\<rparr>])
     \<and> insert_outcome dev w' t' (d2 @ [\<lparr>row_device = dev, row_won = w, row_created = t\<rparr>])
         = None
     \<and> length (prev_rows (d2 @ [\<lparr>row_device = dev, row_won = w, row_created = t\<rparr>]) dev) = 1"
proof -
  have a: "insert_winner dev t' (insert_winner dev t d) = insert_winner dev t d"
    by (rule insert_winner_twice)
  have b: "length (filter (\<lambda>w. device_id w = dev) (winners (insert_winner dev t d))) = 1"
    using assms(1) by (rule insert_winner_one_row)
  have c: "distinct (map device_id (winners (insert_winner dev t d)))"
    using assms(1) by (rule insert_winner_distinct)
  have e: "register_winner dev t' (register_winner dev t s) = register_winner dev t s"
    by (rule register_winner_twice)
  have e': "current (register_winner dev t s) = insert_winner dev (sql_now s t) (current s)"
    by (rule current_register_winner)
  have f: "insert_outcome dev w t d2
         = Some (d2 @ [\<lparr>row_device = dev, row_won = w, row_created = t\<rparr>])"
    using assms(2) by (simp add: insert_outcome_def)
  have g: "insert_outcome dev w' t' (d2 @ [\<lparr>row_device = dev, row_won = w, row_created = t\<rparr>])
         = None"
    by (simp add: insert_outcome_def prev_rows_append)
  have h: "length (prev_rows (d2 @ [\<lparr>row_device = dev, row_won = w, row_created = t\<rparr>]) dev) = 1"
    using assms(2) by (simp add: prev_rows_append)
  from a b c e e' f g h show ?thesis by simp
qed

text \<open>The hypotheses of C5 hold for the store where \<open>d1\<close> has won and an empty table.\<close>

theorem recordWin_idempotent_witness:
  "distinct (map device_id (winners db_taken)) \<and> prev_rows [] ''d2'' = []
   \<and> winners (insert_winner ''d2'' 8 (insert_winner ''d2'' 7 db_taken))
       = [\<lparr>device_id = ''d1'', created_at = 5\<rparr>, \<lparr>device_id = ''d2'', created_at = 7\<rparr>]
   \<and> length (filter (\<lambda>w. device_id w = ''d2'')
        (winners (insert_winner ''d2'' 8 (insert_winner ''d2'' 7 db_taken)))) = 1
   \<and> insert_outcome ''d2'' True 7 []
       = Some [\<lparr>row_device = ''d2'', row_won = True, row_created = 7\<rparr>]
   \<and> insert_outcome ''d2'' False 8 [\<lparr>row_device = ''d2'', row_won = True, row_created = 7\<rparr>]
       = None"
proof -
  have h: "distinct (map device_id (winners db_taken))" "prev_rows [] ''d2'' = []"
    by (simp_all add: db_taken_def prev_rows_def)
  have v: "winners (insert_winner ''d2'' 7 db_taken)
       = [\<lparr>device_id = ''d1'', created_at = 5\<rparr>, \<lparr>device_id = ''d2'', created_at = 7\<rparr>]"
    by (simp add: insert_winner_def db_taken_def)
  from recordWin_idempotent[OF h, where t' = 8 and t = 7 and w = True and w' = False] h v
  show ?thesis by simp
qed

text \<open>
  In the variant that records every outcome the second insert for an identity is an
  error, not a silent no-op; the handler reaches it when two first requests of one
  identity interleave, and answers the second with the error.
\<close>

theorem recordWin_second_insert_counterexample:
  "insert_outcome ''d1'' True 1 [] = Some db2_d1_won
   \<and> insert_outcome ''d1'' True 2 db2_d1_won = None
   \<and> map snd (snd (fold turn2 [0, 1, 0, 1, 0, 1, 0]
         ([], arrive2 [ask2 ''d1'' 0 1, ask2 ''d1'' 0 2])))
       = [Answered (Result2 True None 9), Answered Server_error]"
  using same_identity_race
  by (simp add: insert_outcome_def prev_rows_def db2_d1_won_def)

section \<open>Claims are permanent\<close>



section \<open>A statement that throws during claim and registration\<close>

text \<open>
  The MySQL variant has no transaction: when the insert throws after a successful
  claim, the token stays claimed and the winners table stays empty, a half-applied
  pair. In server.js the \<open>ROLLBACK\<close> of the \<open>catch\<close> block can throw as well: then the
  caller is answered nothing, the transaction stays open on the pooled connection, and
  the next request on that connection commits the claim of the failed one.
\<close>

theorem failure_in_claim_and_register_counterexample:
  "draw_mysql cfg_unset (seed 1) (ask_failing ''d1'' (JNumber (Fin 1)) 0 9 {Q_insert})
     = (Internal_error,
        \<lparr>prize_tokens = [\<lparr>id_col = 1, claimed_by = Some ''d1'', claimed_at = Some 9\<rparr>],
         winners = []\<rparr>)
   \<and> snd (draw_mysql cfg_unset (seed 1) (ask_failing ''d1'' (JNumber (Fin 1)) 0 9 {Q_insert}))
       \<noteq> seed 1
   \<and> serve cfg_unset (connect (seed 2))
        [ask_failing ''d1'' (JNumber (Fin 1)) 0 9 {Q_insert, Q_rollback_catch},
         ask ''d2'' (JNumber (Fin 1)) 0 10]
       = ([No_response, Result True None 0],
          connect
            \<lparr>prize_tokens = [\<lparr>id_col = 1, claimed_by = Some ''d1'', claimed_at = Some 9\<rparr>,
                             \<lparr>id_col = 2, claimed_by = Some ''d2'', claimed_at = Some 9\<rparr>],
             winners = [\<lparr>device_id = ''d2'', created_at = 9\<rparr>]\<rparr>)"
proof -
  have dev: "deviceId (ask_failing ''d1'' (JNumber (Fin 1)) 0 9 {Q_insert}) = DevString ''d1''"
    "''d1'' \<noteq> []"
    by (simp_all add: ask_failing_def)
  have "draw_mysql cfg_unset (seed 1) (ask_failing ''d1'' (JNumber (Fin 1)) 0 9 {Q_insert})
     = (Internal_error,
        \<lparr>prize_tokens = [\<lparr>id_col = 1, claimed_by = Some ''d1'', claimed_at = Some 9\<rparr>],
         winners = []\<rparr>)
   \<and> snd (draw_mysql cfg_unset (seed 1) (ask_failing ''d1'' (JNumber (Fin 1)) 0 9 {Q_insert}))
       \<noteq> seed 1"
    unfolding draw_mysql_table[OF dev]
    by (simp add: ask_failing_def seed_def rate_of_def remaining_of_def free_def claim_update_def
        claim_eval)
  with leaked_transaction_run show ?thesis by blast
qed

text \<open>
  Claim C8, as amended. The request is one that reaches the claim: a valid identity
  without a winner row, whose prior-win read succeeds and which passes the gate. In
  server.js, when \<open>BEGIN\<close>, the claim, the insert, the \<open>COMMIT\<close> or the \<open>ROLLBACK\<close> after
  an empty claim throws and the \<open>ROLLBACK\<close> of the \<open>catch\<close> block succeeds, the caller
  gets the 500 answer, the connection goes back to the pool with no open transaction
  and the committed tables are those before the request; and whatever else throws
  while that \<open>ROLLBACK\<close> succeeds, a connection that was handed out without an open
  transaction goes back without one, and the committed tables are either those before
  the request or those with the token claimed and the winner registered, never one
  without the other. The MySQL variant has no transaction: when the claim throws
  nothing has changed, but when the insert throws after a successful claim the caller
  gets the 500 answer and the token stays claimed with no winner row.
\<close>

theorem failure_in_claim_and_register:
  assumes "deviceId req = DevString dev" and "dev \<noteq> []"
    and "dev \<notin> device_id ` set (winners (current (pool_connect req s)))"
    and "dev \<notin> device_id ` set (winners d)" and "Q_hasWon \<notin> faults req"
    and "js_less (Fin (math_random req)) (rate_of cfg (winRate req))"
  shows
    "(Q_rollback_catch \<notin> faults req
        \<and> (Q_begin \<in> faults req \<or> Q_claim \<in> faults req
             \<or> (candidates (locked req) (prize_tokens (current (pool_connect req s))) \<noteq> []
                  \<and> (Q_insert \<in> faults req \<or> Q_commit \<in> faults req))
             \<or> (candidates (locked req) (prize_tokens (current (pool_connect req s))) = []
                  \<and> Q_rollback_empty \<in> faults req))
        \<longrightarrow> draw cfg s req = (Internal_error, connect (committed s)))
     \<and> (Q_rollback_catch \<notin> faults req \<and> pending (pool_connect req s) = None
        \<longrightarrow> snd (draw cfg s req) = connect (committed s)
            \<or> (candidates (locked req) (prize_tokens (committed s)) \<noteq> []
                \<and> snd (draw cfg s req)
                    = connect (insert_winner dev (now req)
                        (claim_skip_locked (locked req) dev (now req) (scan req) (committed s)))))
     \<and> (Q_claim \<in> faults req \<longrightarrow> draw_mysql cfg d req = (Internal_error, d))
     \<and> (Q_claim \<notin> faults req \<and> Q_insert \<in> faults req \<and> 0 < remaining_of d
        \<longrightarrow> draw_mysql cfg d req = (Internal_error, claim_update dev (now req) (scan req) d)
            \<and> winners (claim_update dev (now req) (scan req) d) = winners d
            \<and> remaining_of (claim_update dev (now req) (scan req) d) = remaining_of d - 1)"
proof -
  have rb: "ROLLBACK (pool_connect req s) = connect (committed s)"
    by (simp add: ROLLBACK_connect pool_connect_def committed_connect)
  have a: "draw cfg s req = (Internal_error, connect (committed s))"
    if "Q_rollback_catch \<notin> faults req
        \<and> (Q_begin \<in> faults req \<or> Q_claim \<in> faults req
             \<or> (candidates (locked req) (prize_tokens (current (pool_connect req s))) \<noteq> []
                  \<and> (Q_insert \<in> faults req \<or> Q_commit \<in> faults req))
             \<or> (candidates (locked req) (prize_tokens (current (pool_connect req s))) = []
                  \<and> Q_rollback_empty \<in> faults req))"
    unfolding draw_table[OF assms(1,2)] rb using assms(3,5,6) that by auto
  have b: "snd (draw cfg s req) = connect (committed s)
            \<or> (candidates (locked req) (prize_tokens (committed s)) \<noteq> []
                \<and> snd (draw cfg s req)
                    = connect (insert_winner dev (now req)
                        (claim_skip_locked (locked req) dev (now req) (scan req) (committed s))))"
    if "Q_rollback_catch \<notin> faults req \<and> pending (pool_connect req s) = None"
  proof -
    from that have idle: "pool_connect req s = connect (committed s)"
      by (cases s) (auto simp: pool_connect_def connect_def)
    show ?thesis
      unfolding draw_table[OF assms(1,2)] rb
      using that
      by (simp add: idle current_connect sql_now_def pending_connect)
  qed
  have c: "draw_mysql cfg d req = (Internal_error, d)" if "Q_claim \<in> faults req"
    unfolding draw_mysql_table[OF assms(1,2)] using assms(4,5,6) that by simp
  have e: "draw_mysql cfg d req = (Internal_error, claim_update dev (now req) (scan req) d)"
    if "Q_claim \<notin> faults req \<and> Q_insert \<in> faults req \<and> 0 < remaining_of d"
    unfolding draw_mysql_table[OF assms(1,2)] using assms(4,5,6) that by simp
  from a b c e show ?thesis
    by (simp add: winners_claim_update remaining_claim_update)
qed

text \<open>
  The hypotheses of C8 hold for a request on a store seeded with one token whose insert
  throws.
\<close>

theorem failure_in_claim_and_register_witness:
  "deviceId (ask_failing ''d1'' (JNumber (Fin 1)) 0 9 {Q_insert}) = DevString ''d1''
   \<and> ''d1'' \<noteq> []
   \<and> ''d1'' \<notin> device_id ` set (winners (current
         (pool_connect (ask_failing ''d1'' (JNumber (Fin 1)) 0 9 {Q_insert}) (connect (seed 1)))))
   \<and> ''d1'' \<notin> device_id ` set (winners (seed 1))
   \<and> Q_hasWon \<notin> faults (ask_failing ''d1'' (JNumber (Fin 1)) 0 9 {Q_insert})
   \<and> js_less (Fin (math_random (ask_failing ''d1'' (JNumber (Fin 1)) 0 9 {Q_insert})))
        (rate_of cfg_unset (winRate (ask_failing ''d1'' (JNumber (Fin 1)) 0 9 {Q_insert})))
   \<and> Q_rollback_catch \<notin> faults (ask_failing ''d1'' (JNumber (Fin 1)) 0 9 {Q_insert})
   \<and> candidates (locked (ask_failing ''d1'' (JNumber (Fin 1)) 0 9 {Q_insert}))
        (prize_tokens (current (pool_connect
           (ask_failing ''d1'' (JNumber (Fin 1)) 0 9 {Q_insert}) (connect (seed 1))))) \<noteq> []
   \<and> pending (pool_connect (ask_failing ''d1'' (JNumber (Fin 1)) 0 9 {Q_insert})
        (connect (seed 1))) = None
   \<and> 0 < remaining_of (seed 1)
   \<and> Q_insert \<in> faults (ask_failing ''d1'' (JNumber (Fin 1)) 0 9 {Q_insert})
   \<and> Q_claim \<notin> faults (ask_failing ''d1'' (JNumber (Fin 1)) 0 9 {Q_insert})
   \<and> draw cfg_unset (connect (seed 1)) (ask_failing ''d1'' (JNumber (Fin 1)) 0 9 {Q_insert})
       = (Internal_error, connect (seed 1))
   \<and> draw_mysql cfg_unset (seed 1) (ask_failing ''d1'' (JNumber (Fin 1)) 0 9 {Q_insert})
       = (Internal_error, claim_update ''d1'' 9 0 (seed 1))"
proof -
  have p: "pool_connect (ask_failing ''d1'' (JNumber (Fin 1)) 0 9 {Q_insert}) (connect (seed 1))
      = connect (seed 1)"
    by (rule pool_connect_idle)
  have h: "deviceId (ask_failing ''d1'' (JNumber (Fin 1)) 0 9 {Q_insert}) = DevString ''d1''"
    "''d1'' \<noteq> []"
    "''d1'' \<notin> device_id ` set (winners (current
         (pool_connect (ask_failing ''d1'' (JNumber (Fin 1)) 0 9 {Q_insert}) (connect (seed 1)))))"
    "''d1'' \<notin> device_id ` set (winners (seed 1))"
    "Q_hasWon \<notin> faults (ask_failing ''d1'' (JNumber (Fin 1)) 0 9 {Q_insert})"
    "js_less (Fin (math_random (ask_failing ''d1'' (JNumber (Fin 1)) 0 9 {Q_insert})))
        (rate_of cfg_unset (winRate (ask_failing ''d1'' (JNumber (Fin 1)) 0 9 {Q_insert})))"
    unfolding p current_connect
    by (simp_all add: ask_failing_def seed_def rate_of_def)
  have g: "Q_rollback_catch \<notin> faults (ask_failing ''d1'' (JNumber (Fin 1)) 0 9 {Q_insert})"
    "Q_insert \<in> faults (ask_failing ''d1'' (JNumber (Fin 1)) 0 9 {Q_insert})"
    "Q_claim \<notin> faults (ask_failing ''d1'' (JNumber (Fin 1)) 0 9 {Q_insert})"
    "now (ask_failing ''d1'' (JNumber (Fin 1)) 0 9 {Q_insert}) = 9"
    "scan (ask_failing ''d1'' (JNumber (Fin 1)) 0 9 {Q_insert}) = 0"
    by (simp_all add: ask_failing_def)
  have k: "candidates (locked (ask_failing ''d1'' (JNumber (Fin 1)) 0 9 {Q_insert}))
        (prize_tokens (current (pool_connect
           (ask_failing ''d1'' (JNumber (Fin 1)) 0 9 {Q_insert}) (connect (seed 1))))) \<noteq> []"
    "pending (pool_connect (ask_failing ''d1'' (JNumber (Fin 1)) 0 9 {Q_insert})
        (connect (seed 1))) = None"
    "committed (connect (seed 1)) = seed 1"
    unfolding p current_connect
    by (simp_all add: ask_failing_def seed_def candidates_def free_def connect_def)
  have r: "0 < remaining_of (seed 1)"
    by (simp add: seed_tokens)
  have "draw cfg_unset (connect (seed 1)) (ask_failing ''d1'' (JNumber (Fin 1)) 0 9 {Q_insert})
       = (Internal_error, connect (seed 1))
   \<and> draw_mysql cfg_unset (seed 1) (ask_failing ''d1'' (JNumber (Fin 1)) 0 9 {Q_insert})
       = (Internal_error, claim_update ''d1'' 9 0 (seed 1))"
    using failure_in_claim_and_register[OF h] g k r by auto
  with h g k r show ?thesis by simp
qed

section \<open>The default win rate\<close>

text \<open>
  Claim C9, as amended. In server.js and in the MySQL variant the rate is optional: a
  request without \<open>winRate\<close>, or with one that does not coerce to a finite number, is
  served exactly as the same request with \<open>DEFAULT_WIN_RATE\<close> written out, and
  \<open>DEFAULT_WIN_RATE\<close> is the double \<open>0.15\<close> when the environment does not set it. A
  \<open>winRate\<close> that coerces to a finite number is the rate of the draw: the request is
  served as with that number written out, and wins the gate exactly when the random
  value is below it. The variant that records every outcome reads no rate from the
  request: a first request under the cap wins exactly when the random value is below
  the double \<open>0.3\<close>.
\<close>

theorem absent_rate_is_default:
  assumes "device_key (deviceId2 req2) = Some dev2" and "prev_rows d2 dev2 = []"
    and "countWinners d2 < MAX_PRIZES" and "faults2 req2 = {}"
  shows
    "rate_of cfg JUndefined = DEFAULT_WIN_RATE cfg
     \<and> DEFAULT_WIN_RATE \<lparr>env_DEFAULT_WIN_RATE = None\<rparr> = Fin double_0_15
     \<and> \<bar>double_0_15 - 15 / 100\<bar> < 1 / 2 ^ 57
     \<and> draw cfg s (req\<lparr>winRate := JUndefined\<rparr>)
         = draw cfg s (req\<lparr>winRate := JNumber (DEFAULT_WIN_RATE cfg)\<rparr>)
     \<and> draw_mysql cfg d (req\<lparr>winRate := JUndefined\<rparr>)
         = draw_mysql cfg d (req\<lparr>winRate := JNumber (DEFAULT_WIN_RATE cfg)\<rparr>)
     \<and> (\<not> Number_isFinite (Number v) \<longrightarrow>
          rate_of cfg v = DEFAULT_WIN_RATE cfg
          \<and> draw cfg s (req\<lparr>winRate := v\<rparr>)
              = draw cfg s (req\<lparr>winRate := JNumber (DEFAULT_WIN_RATE cfg)\<rparr>)
          \<and> draw_mysql cfg d (req\<lparr>winRate := v\<rparr>)
              = draw_mysql cfg d (req\<lparr>winRate := JNumber (DEFAULT_WIN_RATE cfg)\<rparr>))
     \<and> (Number_isFinite (Number u) \<longrightarrow>
          rate_of cfg u = Number u
          \<and> draw cfg s (req\<lparr>winRate := u\<rparr>) = draw cfg s (req\<lparr>winRate := JNumber (Number u)\<rparr>)
          \<and> draw_mysql cfg d (req\<lparr>winRate := u\<rparr>)
              = draw_mysql cfg d (req\<lparr>winRate := JNumber (Number u)\<rparr>))
     \<and> (deviceId req = DevString dev \<and> dev \<noteq> [] \<and> faults req = {}
          \<and> dev \<notin> device_id ` set (winners d) \<and> 0 < remaining_of d \<and> locked req = {} \<longrightarrow>
          is_won (fst (draw cfg (connect d) (req\<lparr>winRate := JNumber (Fin q)\<rparr>)))
            = (math_random req < q)
          \<and> is_won (fst (draw_mysql cfg d (req\<lparr>winRate := JNumber (Fin q)\<rparr>)))
            = (math_random req < q))
     \<and> is_won2 (fst (draw2 d2 req2)) = (math_random2 req2 < double_0_3)
     \<and> \<bar>double_0_3 - 3 / 10\<bar> < 1 / 2 ^ 56"
proof -
  have a: "\<bar>double_0_15 - 15 / 100\<bar> < 1 / 2 ^ 57"
    by (simp add: double_0_15_def)
  have b: "\<bar>double_0_3 - 3 / 10\<bar> < 1 / 2 ^ 56"
    by (simp add: double_0_3_def)
  have c: "is_won2 (fst (draw2 d2 req2)) = (math_random2 req2 < double_0_3)"
    unfolding draw2_table[OF assms(1)] using assms(2,3,4) by simp
  have e: "draw cfg s (req\<lparr>winRate := JUndefined\<rparr>)
         = draw cfg s (req\<lparr>winRate := JNumber (DEFAULT_WIN_RATE cfg)\<rparr>)"
    by (rule draw_same_rate) (simp add: rate_of_absent rate_of_default)
  have e': "draw_mysql cfg d (req\<lparr>winRate := JUndefined\<rparr>)
         = draw_mysql cfg d (req\<lparr>winRate := JNumber (DEFAULT_WIN_RATE cfg)\<rparr>)"
    by (rule draw_mysql_same_rate) (simp add: rate_of_absent rate_of_default)
  have f: "rate_of cfg v = DEFAULT_WIN_RATE cfg
          \<and> draw cfg s (req\<lparr>winRate := v\<rparr>)
              = draw cfg s (req\<lparr>winRate := JNumber (DEFAULT_WIN_RATE cfg)\<rparr>)
          \<and> draw_mysql cfg d (req\<lparr>winRate := v\<rparr>)
              = draw_mysql cfg d (req\<lparr>winRate := JNumber (DEFAULT_WIN_RATE cfg)\<rparr>)"
    if "\<not> Number_isFinite (Number v)"
  proof -
    have r: "rate_of cfg v = rate_of cfg (JNumber (DEFAULT_WIN_RATE cfg))"
      using that by (simp add: rate_of_not_finite rate_of_default)
    from draw_same_rate[OF r] draw_mysql_same_rate[OF r] that show ?thesis
      by (simp add: rate_of_not_finite)
  qed
  have g: "rate_of cfg u = Number u
          \<and> draw cfg s (req\<lparr>winRate := u\<rparr>) = draw cfg s (req\<lparr>winRate := JNumber (Number u)\<rparr>)
          \<and> draw_mysql cfg d (req\<lparr>winRate := u\<rparr>)
              = draw_mysql cfg d (req\<lparr>winRate := JNumber (Number u)\<rparr>)"
    if "Number_isFinite (Number u)"
  proof -
    have r: "rate_of cfg u = rate_of cfg (JNumber (Number u))"
      using that by (simp add: rate_of_def)
    from draw_same_rate[OF r] draw_mysql_same_rate[OF r] that show ?thesis
      by (simp add: rate_of_finite)
  qed
  have h: "is_won (fst (draw cfg (connect d) (req\<lparr>winRate := JNumber (Fin q)\<rparr>)))
            = (math_random req < q)
          \<and> is_won (fst (draw_mysql cfg d (req\<lparr>winRate := JNumber (Fin q)\<rparr>)))
            = (math_random req < q)"
    if "deviceId req = DevString dev \<and> dev \<noteq> [] \<and> faults req = {}
          \<and> dev \<notin> device_id ` set (winners d) \<and> 0 < remaining_of d \<and> locked req = {}"
  proof -
    from that have dev: "deviceId (req\<lparr>winRate := JNumber (Fin q)\<rparr>) = DevString dev" "dev \<noteq> []"
      by simp_all
    have p: "pool_connect (req\<lparr>winRate := JNumber (Fin q)\<rparr>) (connect d) = connect d"
      by (rule pool_connect_idle)
    from that have "filter free (prize_tokens d) \<noteq> []"
      by (auto simp: remaining_of_def)
    then have cand: "candidates {} (prize_tokens d) \<noteq> []"
      by (simp add: candidates_empty)
    have x: "is_won (fst (draw cfg (connect d) (req\<lparr>winRate := JNumber (Fin q)\<rparr>)))
            = (math_random req < q)"
      unfolding draw_table[OF dev] p current_connect
      using that cand by (simp add: rate_of_def)
    have y: "is_won (fst (draw_mysql cfg d (req\<lparr>winRate := JNumber (Fin q)\<rparr>)))
            = (math_random req < q)"
      unfolding draw_mysql_table[OF dev]
      using that by (simp add: rate_of_def)
    from x y show ?thesis by simp
  qed
  from a b c e e' f g h show ?thesis
    by (simp add: rate_of_absent DEFAULT_WIN_RATE_def)
qed

text \<open>
  The hypotheses of C9 hold for a first request on an empty table, for a \<open>winRate\<close>
  that is not a number and for one that is: on a store seeded with one token a draw of
  one fifth loses with the default rate and wins with a rate of one quarter.
\<close>

theorem absent_rate_is_default_witness:
  "device_key (deviceId2 (ask2 ''d1'' (1 / 5) 9)) = Some ''d1'' \<and> prev_rows [] ''d1'' = []
   \<and> countWinners [] < MAX_PRIZES \<and> faults2 (ask2 ''d1'' (1 / 5) 9) = {}
   \<and> \<not> Number_isFinite (Number (JOther NaN)) \<and> Number_isFinite (Number (JBool True))
   \<and> deviceId (ask ''d1'' JUndefined (1 / 5) 9) = DevString ''d1'' \<and> ''d1'' \<noteq> []
   \<and> faults (ask ''d1'' JUndefined (1 / 5) 9) = {}
   \<and> ''d1'' \<notin> device_id ` set (winners (seed 1)) \<and> 0 < remaining_of (seed 1)
   \<and> locked (ask ''d1'' JUndefined (1 / 5) 9) = {}
   \<and> draw cfg_unset (connect (seed 1)) (ask ''d1'' JUndefined (1 / 5) 9)
       = draw cfg_unset (connect (seed 1)) (ask ''d1'' (JNumber (Fin double_0_15)) (1 / 5) 9)
   \<and> draw cfg_unset (connect (seed 1)) (ask ''d1'' (JOther NaN) (1 / 5) 9)
       = draw cfg_unset (connect (seed 1)) (ask ''d1'' (JNumber (Fin double_0_15)) (1 / 5) 9)
   \<and> rate_of cfg_unset (JBool True) = Fin 1
   \<and> is_won (fst (draw cfg_unset (connect (seed 1)) (ask ''d1'' (JNumber (Fin (1 / 4))) (1 / 5) 9)))
   \<and> \<not> is_won (fst (draw cfg_unset (connect (seed 1))
                      (ask ''d1'' (JNumber (Fin double_0_15)) (1 / 5) 9)))
   \<and> is_won2 (fst (draw2 [] (ask2 ''d1'' (1 / 5) 9)))"
proof -
  have h: "device_key (deviceId2 (ask2 ''d1'' (1 / 5) 9)) = Some ''d1''" "prev_rows [] ''d1'' = []"
    "countWinners [] < MAX_PRIZES" "faults2 (ask2 ''d1'' (1 / 5) 9) = {}"
    by (simp_all add: ask2_def prev_rows_def countWinners_def MAX_PRIZES_def)
  have g: "\<not> Number_isFinite (Number (JOther NaN))" "Number_isFinite (Number (JBool True))"
    "deviceId (ask ''d1'' JUndefined (1 / 5) 9) = DevString ''d1''" "''d1'' \<noteq> []"
    "faults (ask ''d1'' JUndefined (1 / 5) 9) = {}"
    "''d1'' \<notin> device_id ` set (winners (seed 1))"
    "locked (ask ''d1'' JUndefined (1 / 5) 9) = {}"
    by (simp_all add: ask_def seed_def)
  have g': "0 < remaining_of (seed 1)"
    by (simp add: seed_tokens)
  have v: "(ask ''d1'' JUndefined (1 / 5) 9)\<lparr>winRate := x\<rparr> = ask ''d1'' x (1 / 5) 9" for x
    by (simp add: ask_def)
  have w: "DEFAULT_WIN_RATE cfg_unset = Fin double_0_15"
    "math_random (ask ''d1'' JUndefined (1 / 5) 9) = 1 / 5"
    "Number (JBool True) = Fin 1"
    by (simp_all add: ask_def DEFAULT_WIN_RATE_def cfg_unset_def)
  have n: "math_random2 (ask2 ''d1'' (1 / 5) 9) < double_0_3" "\<not> (1 / 5 :: real) < double_0_15"
    by (simp_all add: ask2_def double_0_3_def double_0_15_def)
  from absent_rate_is_default[OF h, where cfg = cfg_unset and s = "connect (seed 1)"
      and d = "seed 1" and req = "ask ''d1'' JUndefined (1 / 5) 9" and v = "JOther NaN"
      and u = "JBool True" and dev = "''d1''" and q = "1 / 4"]
    absent_rate_is_default[OF h, where cfg = cfg_unset and s = "connect (seed 1)"
      and d = "seed 1" and req = "ask ''d1'' JUndefined (1 / 5) 9" and v = "JOther NaN"
      and u = "JBool True" and dev = "''d1''" and q = "double_0_15"]
    h g g' n
  show ?thesis
    unfolding v w by simp
qed

text \<open>
  In the variant that records every outcome a request without a rate that draws one
  fifth wins, though one fifth is not below the default rate; in server.js the same
  draw loses.
\<close>

theorem absent_rate_fixed_chance_counterexample:
  "is_won2 (fst (draw2 [] (ask2 ''d1'' (1 / 5) 9)))
   \<and> \<not> js_less (Fin (1 / 5)) (DEFAULT_WIN_RATE cfg_unset)
   \<and> \<not> is_won (fst (draw cfg_unset (connect (seed 1)) (ask ''d1'' JUndefined (1 / 5) 9)))"
proof -
  have key: "device_key (deviceId2 (ask2 ''d1'' (1 / 5) 9)) = Some ''d1''"
    by (simp add: ask2_def)
  have dev: "deviceId (ask ''d1'' JUndefined (1 / 5) 9) = DevString ''d1''" "''d1'' \<noteq> []"
    by (simp_all add: ask_def)
  have a: "is_won2 (fst (draw2 [] (ask2 ''d1'' (1 / 5) 9)))"
    unfolding draw2_table[OF key]
    by (simp add: ask2_def prev_rows_def countWinners_def MAX_PRIZES_def double_0_3_def)
  have b: "\<not> js_less (Fin (1 / 5)) (DEFAULT_WIN_RATE cfg_unset)"
    by (simp add: DEFAULT_WIN_RATE_def cfg_unset_def double_0_15_def)
  have c: "\<not> is_won (fst (draw cfg_unset (connect (seed 1)) (ask ''d1'' JUndefined (1 / 5) 9)))"
    unfolding draw_table[OF dev]
    by (simp add: ask_def seed_def rate_of_def DEFAULT_WIN_RATE_def cfg_unset_def double_0_15_def)
  from a b c show ?thesis by simp
qed

section \<open>One free token, several concurrent attempts\<close>



end
